theory Spec2Isabelle
  imports Complex_Main "HOL-Library.Word"
begin

section \<open>JavaScript numbers and their text forms\<close>

text \<open>
  A JavaScript \<^verbatim>\<open>number\<close> is modelled as an exact rational extended by the three
  non-finite values of IEEE arithmetic. The rounding of doubles, overflow to infinity and the
  sign of zero are abstracted: every finite operation is exact and \<open>-0\<close> is \<open>0\<close>. The decimal
  literals of the source (\<^verbatim>\<open>0.9\<close>, \<^verbatim>\<open>1.2\<close>, ...) stand for the rationals they
  denote.
\<close>

datatype jsnum = Fin rat | PosInf | NegInf | NaN

definition infOfSign :: "rat \<Rightarrow> jsnum" where
  "infOfSign s = (if 0 < s then PosInf else if s < 0 then NegInf else NaN)"

fun jssgn :: "jsnum \<Rightarrow> rat" where
  "jssgn (Fin a) = sgn a"
| "jssgn PosInf = 1"
| "jssgn NegInf = - 1"
| "jssgn NaN = 0"

text \<open>The operators \<^verbatim>\<open>+\<close>, unary \<^verbatim>\<open>-\<close>, binary \<^verbatim>\<open>-\<close>, \<^verbatim>\<open>*\<close>, \<^verbatim>\<open>/\<close> and \<^verbatim>\<open>>=\<close> on numbers.\<close>

fun jsadd :: "jsnum \<Rightarrow> jsnum \<Rightarrow> jsnum" where
  "jsadd NaN y = NaN"
| "jsadd x NaN = NaN"
| "jsadd (Fin a) (Fin b) = Fin (a + b)"
| "jsadd (Fin a) y = y"
| "jsadd x (Fin b) = x"
| "jsadd PosInf PosInf = PosInf"
| "jsadd NegInf NegInf = NegInf"
| "jsadd PosInf NegInf = NaN"
| "jsadd NegInf PosInf = NaN"

fun jsneg :: "jsnum \<Rightarrow> jsnum" where
  "jsneg (Fin a) = Fin (- a)"
| "jsneg PosInf = NegInf"
| "jsneg NegInf = PosInf"
| "jsneg NaN = NaN"

definition jssub :: "jsnum \<Rightarrow> jsnum \<Rightarrow> jsnum" where
  "jssub x y = jsadd x (jsneg y)"

fun jsmul :: "jsnum \<Rightarrow> jsnum \<Rightarrow> jsnum" where
  "jsmul NaN y = NaN"
| "jsmul x NaN = NaN"
| "jsmul (Fin a) (Fin b) = Fin (a * b)"
| "jsmul x y = infOfSign (jssgn x * jssgn y)"

fun jsdiv :: "jsnum \<Rightarrow> jsnum \<Rightarrow> jsnum" where
  "jsdiv NaN y = NaN"
| "jsdiv x NaN = NaN"
| "jsdiv (Fin a) (Fin b) = (if b = 0 then infOfSign (sgn a) else Fin (a / b))"
| "jsdiv (Fin a) y = Fin 0"
| "jsdiv x (Fin b) = infOfSign (jssgn x * (if b < 0 then - 1 else 1))"
| "jsdiv x y = NaN"

fun jsge :: "jsnum \<Rightarrow> jsnum \<Rightarrow> bool" where
  "jsge NaN y = False"
| "jsge x NaN = False"
| "jsge (Fin a) (Fin b) = (b \<le> a)"
| "jsge PosInf y = True"
| "jsge x NegInf = True"
| "jsge x y = False"

subsection \<open>Decimal digits\<close>

definition digitChar :: "nat \<Rightarrow> char" where
  "digitChar d = ''0123456789'' ! d"

definition isDigit :: "char \<Rightarrow> bool" where
  "isDigit c = (c \<in> set ''0123456789'')"

text \<open>The value of a digit is its position among the ten digits.\<close>

definition digitVal :: "char \<Rightarrow> nat" where
  "digitVal c = length (takeWhile (\<lambda>d. d \<noteq> c) ''0123456789'')"

definition digitsVal :: "string \<Rightarrow> nat" where
  "digitsVal ds = foldl (\<lambda>a c. 10 * a + digitVal c) 0 ds"

fun showNat :: "nat \<Rightarrow> string" where
  "showNat n = (if n < 10 then [digitChar n] else showNat (n div 10) @ [digitChar (n mod 10)])"

declare showNat.simps [simp del]

text \<open>The text of an integer, as a template literal or \<^verbatim>\<open>toString\<close> prints it (integers
  below \<open>10\<^sup>2\<^sup>1\<close> in magnitude print as plain decimal digits).\<close>

definition showInt :: "int \<Rightarrow> string" where
  "showInt i = (if i < 0 then CHR ''-'' # showNat (nat (- i)) else showNat (nat i))"

subsection \<open>\<^verbatim>\<open>toFixed(2)\<close> and \<^verbatim>\<open>parseFloat\<close>\<close>

text \<open>
  \<^verbatim>\<open>x.toFixed(2)\<close>: the integer \<open>n\<close> nearest to \<open>100 * |x|\<close> (the larger one on a tie),
  printed with two fraction digits behind the sign of \<open>x\<close>. The exponent notation that
  JavaScript uses from \<open>10\<^sup>2\<^sup>1\<close> on is not modelled; it denotes the same number.
\<close>

fun toFixed2 :: "jsnum \<Rightarrow> string" where
  "toFixed2 NaN = ''NaN''"
| "toFixed2 PosInf = ''Infinity''"
| "toFixed2 NegInf = ''-Infinity''"
| "toFixed2 (Fin x) =
     (let n = nat \<lfloor>\<bar>x\<bar> * 100 + 1 / 2\<rfloor>
      in (if x < 0 then ''-'' else '''') @ showNat (n div 100) @ ''.'' @
         [digitChar (n mod 100 div 10), digitChar (n mod 10)])"

definition isSpace :: "char \<Rightarrow> bool" where
  "isSpace c = (c \<in> set [CHR '' '', CHR 0x09, CHR 0x0A, CHR 0x0B, CHR 0x0C, CHR 0x0D])"

definition pow10 :: "int \<Rightarrow> rat" where
  "pow10 e = (if 0 \<le> e then 10 ^ nat e else 1 / 10 ^ nat (- e))"

text \<open>The exponent part at the head of the text left behind a mantissa: its value (\<open>0\<close>
  when there is none) and the text behind it.\<close>

definition parseExponent :: "string \<Rightarrow> int \<times> string" where
  "parseExponent r =
     (case r of
        [] \<Rightarrow> (0, r)
      | c # r1 \<Rightarrow>
          if c = CHR ''e'' \<or> c = CHR ''E'' then
            (case r1 of
               [] \<Rightarrow> (0, r)
             | s # r2 \<Rightarrow>
                 if s = CHR ''+'' \<or> s = CHR ''-'' then
                   (if takeWhile isDigit r2 = [] then (0, r)
                    else ((if s = CHR ''-'' then - 1 else 1) * int (digitsVal (takeWhile isDigit r2)),
                          dropWhile isDigit r2))
                 else if takeWhile isDigit r1 = [] then (0, r)
                 else (int (digitsVal (takeWhile isDigit r1)), dropWhile isDigit r1))
          else (0, r))"

text \<open>
  The longest prefix of a text that is a decimal literal (sign, digits, fraction, exponent,
  or \<^verbatim>\<open>Infinity\<close>): its value and the text behind it, or \<open>None\<close> when no prefix is one.
\<close>

definition parseDecimal :: "string \<Rightarrow> (jsnum \<times> string) option" where
  "parseDecimal t =
     (let neg = (case t of [] \<Rightarrow> False | c # r \<Rightarrow> c = CHR ''-'');
          u = (case t of [] \<Rightarrow> t | c # r \<Rightarrow> if c = CHR ''+'' \<or> c = CHR ''-'' then r else t);
          ip = takeWhile isDigit u;
          r1 = dropWhile isDigit u;
          fp = (case r1 of [] \<Rightarrow> [] | c # r \<Rightarrow> if c = CHR ''.'' then takeWhile isDigit r else []);
          r2 = (case r1 of [] \<Rightarrow> r1 | c # r \<Rightarrow> if c = CHR ''.'' then dropWhile isDigit r else r1)
      in if ip = [] \<and> fp = [] then
           (if take 8 u = ''Infinity'' then Some (if neg then NegInf else PosInf, drop 8 u)
            else None)
         else
           (let m = of_nat (digitsVal ip) + of_nat (digitsVal fp) / 10 ^ length fp;
                v = m * pow10 (fst (parseExponent r2))
            in Some (Fin (if neg then - v else v), snd (parseExponent r2))))"

text \<open>
  \<^verbatim>\<open>parseFloat\<close> on a string skips leading white space and reads the longest decimal
  literal; with none the result is \<open>NaN\<close>. \<^verbatim>\<open>Number\<close> on a string trims it and wants
  the whole of it to be a literal, the empty text being \<open>0\<close>. Only ASCII white space is
  recognised, and the hexadecimal, octal and binary literals of \<^verbatim>\<open>Number\<close> are left out.
\<close>

definition parseFloatStr :: "string \<Rightarrow> jsnum" where
  "parseFloatStr s =
     (case parseDecimal (dropWhile isSpace s) of None \<Rightarrow> NaN | Some (v, r) \<Rightarrow> v)"

definition trim :: "string \<Rightarrow> string" where
  "trim s = rev (dropWhile isSpace (rev (dropWhile isSpace s)))"

definition strNumber :: "string \<Rightarrow> jsnum" where
  "strNumber s =
     (let t = trim s
      in if t = [] then Fin 0
         else (case parseDecimal t of
                 None \<Rightarrow> NaN
               | Some (v, r) \<Rightarrow> if r = [] then v else NaN))"

text \<open>Rounding to two decimals, half away from zero: the number that
  \<^verbatim>\<open>parseFloat(x.toFixed(2))\<close> is, as the lemmas below show.\<close>

definition round2 :: "rat \<Rightarrow> rat" where
  "round2 x = (if x < 0 then - (of_nat (nat \<lfloor>\<bar>x\<bar> * 100 + 1 / 2\<rfloor>) / 100)
               else of_nat (nat \<lfloor>\<bar>x\<bar> * 100 + 1 / 2\<rfloor>) / 100)"

text \<open>The same on a number that may not be finite: \<^verbatim>\<open>toFixed\<close> prints the three
  values that are not finite by name, and \<^verbatim>\<open>parseFloat\<close> reads them back.\<close>

fun jsround2 :: "jsnum \<Rightarrow> jsnum" where
  "jsround2 (Fin q) = Fin (round2 q)"
| "jsround2 x = x"

section \<open>The transfer-time estimator\<close>

datatype FileUnit = Bytes | KB | MB | GB | TB

definition units :: "FileUnit list" where
  "units = [Bytes, KB, MB, GB, TB]"

fun unitSizes :: "FileUnit \<Rightarrow> rat" where
  "unitSizes Bytes = 1"
| "unitSizes KB = 1024"
| "unitSizes MB = 1024 * 1024"
| "unitSizes GB = 1024 * 1024 * 1024"
| "unitSizes TB = 1024 * 1024 * 1024 * 1024"

text \<open>The fields of \<^verbatim>\<open>FileData\<close> are \<^verbatim>\<open>name\<close>, \<^verbatim>\<open>size\<close>, \<^verbatim>\<open>unit\<close> and \<^verbatim>\<open>type\<close>.\<close>

record FileData =
  fname :: string
  fsize :: jsnum
  funit :: FileUnit
  ftype :: string

definition convertToBytes :: "jsnum \<Rightarrow> FileUnit \<Rightarrow> jsnum" where
  "convertToBytes sz u = jsmul sz (Fin (unitSizes u))"

text \<open>
  The multiplication above is exact here. In the doubles of the source a product rounds to
  \<^verbatim>\<open>Infinity\<close> from \<open>2\<^sup>1\<^sup>0\<^sup>2\<^sup>4 - 2\<^sup>9\<^sup>7\<^sup>0\<close> on, the midpoint between the largest
  double and \<open>2\<^sup>1\<^sup>0\<^sup>2\<^sup>4\<close>; below this bound it stays finite.
\<close>

definition maxProduct :: rat where
  "maxProduct = 2 ^ 1024 - 2 ^ 970"

text \<open>The \<^verbatim>\<open>while\<close> loop of \<^verbatim>\<open>convertFromBytes\<close>, on the pair of its two variables.\<close>

function convertLoop :: "jsnum \<Rightarrow> nat \<Rightarrow> jsnum \<times> nat" where
  "convertLoop sz unitIndex =
     (if jsge sz (Fin 1024) \<and> unitIndex < length units - 1
      then convertLoop (jsdiv sz (Fin 1024)) (unitIndex + 1)
      else (sz, unitIndex))"
  by pat_completeness auto
termination
  by (relation "measure (\<lambda>(sz, unitIndex). length units - 1 - unitIndex)") auto

declare convertLoop.simps [simp del]

text \<open>Started at the index 0 the loop ends at an index of at most 4 (lemma
  \<open>convertLoop_index_le\<close> below), so the read of \<^verbatim>\<open>units\<close> is in range.\<close>

definition convertFromBytes :: "jsnum \<Rightarrow> jsnum \<times> FileUnit" where
  "convertFromBytes bytes =
     (case convertLoop bytes 0 of
        (sz, unitIndex) \<Rightarrow> (parseFloatStr (toFixed2 sz), units ! unitIndex))"

definition calculateTime :: "jsnum \<Rightarrow> jsnum \<Rightarrow> jsnum" where
  "calculateTime sz speed = jsdiv (jsmul sz (Fin 8)) (jsmul (jsmul speed (Fin 1024)) (Fin 1024))"

datatype ConnectionType = Wifi | Ethernet

datatype TransferType = Direct | P2p

text \<open>The state variables of the component that the estimate reads and writes.\<close>

record Estimator =
  files :: "FileData list"
  downloadSpeed :: jsnum
  uploadSpeed :: jsnum
  compressionEnabled :: bool
  compressionRate :: jsnum
  downloadTime :: jsnum
  uploadTime :: jsnum
  networkLatency :: jsnum
  cloudProvider :: string
  cloudUploadTime :: jsnum
  isVpnEnabled :: bool
  connectionType :: ConnectionType
  transferType :: TransferType

definition calculateTimeWithLatency :: "Estimator \<Rightarrow> jsnum \<Rightarrow> jsnum \<Rightarrow> jsnum" where
  "calculateTimeWithLatency st sz speed =
     (let baseTime = calculateTime sz speed
      in jsadd baseTime (jsdiv (networkLatency st) (Fin 1000)))"

text \<open>The table of provider factors; a key that is not in it reads as \<^verbatim>\<open>undefined\<close>,
  which the multiplication turns into \<open>NaN\<close>.\<close>

definition cloudSpeedFactors :: "string \<Rightarrow> jsnum option" where
  "cloudSpeedFactors k =
     map_of [(''none'', Fin 1), (''google-drive'', Fin (9 / 10)),
             (''aws-s3'', Fin (11 / 10)), (''onedrive'', Fin (95 / 100))] k"

definition estimateCloudUploadTime :: "Estimator \<Rightarrow> jsnum \<Rightarrow> jsnum" where
  "estimateCloudUploadTime st sz =
     (let effectiveSpeed =
            jsmul (uploadSpeed st)
              (case cloudSpeedFactors (cloudProvider st) of None \<Rightarrow> NaN | Some f \<Rightarrow> f)
      in calculateTimeWithLatency st sz effectiveSpeed)"

text \<open>The first half of \<^verbatim>\<open>handleEstimate\<close>: the byte total of the files, compressed when
  compression is on, and its normalised magnitude \<^verbatim>\<open>finalSize\<close>.\<close>

definition totalSizeBytes :: "Estimator \<Rightarrow> jsnum" where
  "totalSizeBytes st =
     (let total = foldl (\<lambda>sum file. jsadd sum (convertToBytes (fsize file) (funit file)))
                    (Fin 0) (files st)
      in if compressionEnabled st
         then jsmul total (jssub (Fin 1) (jsdiv (compressionRate st) (Fin 100)))
         else total)"

definition finalSize :: "Estimator \<Rightarrow> jsnum" where
  "finalSize st = fst (convertFromBytes (totalSizeBytes st))"

text \<open>The three modifiers of \<^verbatim>\<open>handleEstimate\<close>, which it applies in this order to the
  download speed and to the upload speed alike.\<close>

definition effectiveSpeed :: "Estimator \<Rightarrow> jsnum \<Rightarrow> jsnum" where
  "effectiveSpeed st speed =
     (let s1 = (if isVpnEnabled st then jsmul speed (Fin (9 / 10)) else speed);
          s2 = (if connectionType st = Ethernet then jsmul s1 (Fin (12 / 10)) else s1)
      in if transferType st = P2p then jsmul s2 (Fin (8 / 10)) else s2)"

definition handleEstimate :: "Estimator \<Rightarrow> Estimator" where
  "handleEstimate st =
     (let effectiveDownloadSpeed = effectiveSpeed st (downloadSpeed st);
          effectiveUploadSpeed = effectiveSpeed st (uploadSpeed st);
          downloadTimeValue = calculateTimeWithLatency st (finalSize st) effectiveDownloadSpeed;
          uploadTimeValue = calculateTimeWithLatency st (finalSize st) effectiveUploadSpeed;
          cloudUploadTimeValue = estimateCloudUploadTime st (finalSize st)
      in st\<lparr>downloadTime := downloadTimeValue, uploadTime := uploadTimeValue,
             cloudUploadTime := cloudUploadTimeValue\<rparr>)"

text \<open>The state of the component when it is first rendered (the \<^verbatim>\<open>useState\<close> defaults).\<close>

definition initialEstimator :: Estimator where
  "initialEstimator =
     \<lparr>files = [], downloadSpeed = Fin 1, uploadSpeed = Fin 2, compressionEnabled = False,
      compressionRate = Fin 50, downloadTime = Fin 0, uploadTime = Fin 0, networkLatency = Fin 50,
      cloudProvider = ''none'', cloudUploadTime = Fin 0, isVpnEnabled = False,
      connectionType = Wifi, transferType = Direct\<rparr>"

text \<open>The estimator after one file of \<open>b\<close> bytes was selected (a selected file always has the
  unit \<^verbatim>\<open>bytes\<close>), with compression switched on and the latency set to zero.\<close>

definition oneFile :: "rat \<Rightarrow> Estimator" where
  "oneFile b =
     initialEstimator\<lparr>files := [\<lparr>fname = ''a.bin'', fsize = Fin b, funit = Bytes, ftype = []\<rparr>],
       compressionEnabled := True, networkLatency := Fin 0\<rparr>"

text \<open>The position of a unit in \<^verbatim>\<open>units\<close> (a larger position is a coarser unit), and the
  numbers that are finite and not negative.\<close>

fun unitRank :: "FileUnit \<Rightarrow> nat" where
  "unitRank Bytes = 0"
| "unitRank KB = 1"
| "unitRank MB = 2"
| "unitRank GB = 3"
| "unitRank TB = 4"

fun nonnegFinite :: "jsnum \<Rightarrow> bool" where
  "nonnegFinite (Fin a) = (0 \<le> a)"
| "nonnegFinite x = False"

subsection \<open>The estimate in rounded arithmetic\<close>

text \<open>
  The numbers of the source are doubles: every operation gives the double nearest to its exact
  result, or an infinity when that is out of range, and a decimal literal or text denotes the
  double nearest to it. The definitions above leave this rounding out. The definitions below
  are the same functions with a rounding \<open>rnd\<close> applied to the exact result of every
  operation, to the literals that are not integers, and to the number that \<^verbatim>\<open>parseFloat\<close>
  reads; with \<open>Fin\<close> for \<open>rnd\<close> they are the functions above. The integers 0, 1, 8, 100, 1000
  and the powers of 1024 are doubles.
\<close>

definition rounded :: "(rat \<Rightarrow> jsnum) \<Rightarrow> jsnum \<Rightarrow> jsnum" where
  "rounded rnd x = (case x of Fin q \<Rightarrow> rnd q | _ \<Rightarrow> x)"

text \<open>
  What is assumed of a rounding: it keeps the order, it returns a number that it leaves as it
  is, it leaves 0 and 1 as they are, and it does not return \<open>NaN\<close>. Rounding to the nearest
  double is such a function.
\<close>

definition rounding :: "(rat \<Rightarrow> jsnum) \<Rightarrow> bool" where
  "rounding rnd =
     ((\<forall>x y. x \<le> y \<longrightarrow> jsge (rnd y) (rnd x))
      \<and> (\<forall>x y. rnd x = Fin y \<longrightarrow> rnd y = Fin y)
      \<and> rnd 0 = Fin 0 \<and> rnd 1 = Fin 1
      \<and> (\<forall>x. rnd x \<noteq> NaN))"

definition convertToBytesR :: "(rat \<Rightarrow> jsnum) \<Rightarrow> jsnum \<Rightarrow> FileUnit \<Rightarrow> jsnum" where
  "convertToBytesR rnd sz u = rounded rnd (jsmul sz (Fin (unitSizes u)))"

function convertLoopR :: "(rat \<Rightarrow> jsnum) \<Rightarrow> jsnum \<Rightarrow> nat \<Rightarrow> jsnum \<times> nat" where
  "convertLoopR rnd sz unitIndex =
     (if jsge sz (Fin 1024) \<and> unitIndex < length units - 1
      then convertLoopR rnd (rounded rnd (jsdiv sz (Fin 1024))) (unitIndex + 1)
      else (sz, unitIndex))"
  by pat_completeness auto
termination
  by (relation "measure (\<lambda>(rnd, sz, unitIndex). length units - 1 - unitIndex)") auto

declare convertLoopR.simps [simp del]

definition convertFromBytesR :: "(rat \<Rightarrow> jsnum) \<Rightarrow> jsnum \<Rightarrow> jsnum \<times> FileUnit" where
  "convertFromBytesR rnd bytes =
     (case convertLoopR rnd bytes 0 of
        (sz, unitIndex) \<Rightarrow> (rounded rnd (parseFloatStr (toFixed2 sz)), units ! unitIndex))"

text \<open>The divisor \<^verbatim>\<open>speed * 1024 * 1024\<close> of \<^verbatim>\<open>calculateTime\<close>.\<close>

definition bitsPerSecondR :: "(rat \<Rightarrow> jsnum) \<Rightarrow> jsnum \<Rightarrow> jsnum" where
  "bitsPerSecondR rnd speed = rounded rnd (jsmul (rounded rnd (jsmul speed (Fin 1024))) (Fin 1024))"

definition calculateTimeR :: "(rat \<Rightarrow> jsnum) \<Rightarrow> jsnum \<Rightarrow> jsnum \<Rightarrow> jsnum" where
  "calculateTimeR rnd sz speed =
     rounded rnd (jsdiv (rounded rnd (jsmul sz (Fin 8))) (bitsPerSecondR rnd speed))"

definition calculateTimeWithLatencyR ::
  "(rat \<Rightarrow> jsnum) \<Rightarrow> Estimator \<Rightarrow> jsnum \<Rightarrow> jsnum \<Rightarrow> jsnum" where
  "calculateTimeWithLatencyR rnd st sz speed =
     (let baseTime = calculateTimeR rnd sz speed
      in rounded rnd (jsadd baseTime (rounded rnd (jsdiv (networkLatency st) (Fin 1000)))))"

definition estimateCloudUploadTimeR :: "(rat \<Rightarrow> jsnum) \<Rightarrow> Estimator \<Rightarrow> jsnum \<Rightarrow> jsnum" where
  "estimateCloudUploadTimeR rnd st sz =
     (let effectiveSpeed =
            rounded rnd (jsmul (uploadSpeed st)
              (case cloudSpeedFactors (cloudProvider st) of
                 None \<Rightarrow> NaN | Some f \<Rightarrow> rounded rnd f))
      in calculateTimeWithLatencyR rnd st sz effectiveSpeed)"

definition totalSizeBytesR :: "(rat \<Rightarrow> jsnum) \<Rightarrow> Estimator \<Rightarrow> jsnum" where
  "totalSizeBytesR rnd st =
     (let total = foldl (\<lambda>sum file.
                     rounded rnd (jsadd sum (convertToBytesR rnd (fsize file) (funit file))))
                    (Fin 0) (files st)
      in if compressionEnabled st
         then rounded rnd (jsmul total
                (rounded rnd (jssub (Fin 1) (rounded rnd (jsdiv (compressionRate st) (Fin 100))))))
         else total)"

definition finalSizeR :: "(rat \<Rightarrow> jsnum) \<Rightarrow> Estimator \<Rightarrow> jsnum" where
  "finalSizeR rnd st = fst (convertFromBytesR rnd (totalSizeBytesR rnd st))"

definition effectiveSpeedR :: "(rat \<Rightarrow> jsnum) \<Rightarrow> Estimator \<Rightarrow> jsnum \<Rightarrow> jsnum" where
  "effectiveSpeedR rnd st speed =
     (let s1 = (if isVpnEnabled st then rounded rnd (jsmul speed (rnd (9 / 10))) else speed);
          s2 = (if connectionType st = Ethernet then rounded rnd (jsmul s1 (rnd (12 / 10))) else s1)
      in if transferType st = P2p then rounded rnd (jsmul s2 (rnd (8 / 10))) else s2)"

definition handleEstimateR :: "(rat \<Rightarrow> jsnum) \<Rightarrow> Estimator \<Rightarrow> Estimator" where
  "handleEstimateR rnd st =
     (let effectiveDownloadSpeed = effectiveSpeedR rnd st (downloadSpeed st);
          effectiveUploadSpeed = effectiveSpeedR rnd st (uploadSpeed st);
          downloadTimeValue =
            calculateTimeWithLatencyR rnd st (finalSizeR rnd st) effectiveDownloadSpeed;
          uploadTimeValue =
            calculateTimeWithLatencyR rnd st (finalSizeR rnd st) effectiveUploadSpeed;
          cloudUploadTimeValue = estimateCloudUploadTimeR rnd st (finalSizeR rnd st)
      in st\<lparr>downloadTime := downloadTimeValue, uploadTime := uploadTimeValue,
             cloudUploadTime := cloudUploadTimeValue\<rparr>)"

text \<open>The numbers that are not negative: the finite ones from 0 on, and \<^verbatim>\<open>Infinity\<close>.\<close>

fun nonneg :: "jsnum \<Rightarrow> bool" where
  "nonneg (Fin a) = (0 \<le> a)"
| "nonneg PosInf = True"
| "nonneg x = False"

section \<open>The probe cycle\<close>

subsection \<open>JavaScript values\<close>

text \<open>
  The values that a parsed JSON body holds, and \<^verbatim>\<open>undefined\<close>. JSON numbers are restricted
  to the integers of 32 bits, read as signed: doubles hold them exactly and print them as
  plain decimal digits.
\<close>

datatype jsval =
    Undefined
  | JNull
  | JBool bool
  | JNum "32 word"
  | JStr string
  | JArr "jsval list"
  | JObj "(string \<times> jsval) list"

fun truthy :: "jsval \<Rightarrow> bool" where
  "truthy Undefined = False"
| "truthy JNull = False"
| "truthy (JBool b) = b"
| "truthy (JNum w) = (w \<noteq> 0)"
| "truthy (JStr s) = (s \<noteq> [])"
| "truthy (JArr xs) = True"
| "truthy (JObj kvs) = True"

fun joinComma :: "string list \<Rightarrow> string" where
  "joinComma [] = []"
| "joinComma [x] = x"
| "joinComma (x # y # ys) = x @ '','' @ joinComma (y # ys)"

text \<open>The string that a template literal makes of a value.\<close>

fun toStr :: "jsval \<Rightarrow> string" where
  "toStr Undefined = ''undefined''"
| "toStr JNull = ''null''"
| "toStr (JBool b) = (if b then ''true'' else ''false'')"
| "toStr (JNum w) = showInt (sint w)"
| "toStr (JStr s) = s"
| "toStr (JArr xs) =
     joinComma (map (\<lambda>x. if x = Undefined \<or> x = JNull then [] else toStr x) xs)"
| "toStr (JObj kvs) = ''[object Object]''"

text \<open>The number that arithmetic makes of a value.\<close>

fun toNumber :: "jsval \<Rightarrow> jsnum" where
  "toNumber Undefined = NaN"
| "toNumber JNull = Fin 0"
| "toNumber (JBool b) = (if b then Fin 1 else Fin 0)"
| "toNumber (JNum w) = Fin (of_int (sint w))"
| "toNumber (JStr s) = strNumber s"
| "toNumber (JArr xs) = strNumber (toStr (JArr xs))"
| "toNumber (JObj kvs) = NaN"

definition parseFloat :: "jsval \<Rightarrow> jsnum" where
  "parseFloat v = parseFloatStr (toStr v)"


text \<open>
  Reading a property of a parsed body, \<^verbatim>\<open>data[key]\<close>: on \<^verbatim>\<open>null\<close> the read throws a
  \<^verbatim>\<open>TypeError\<close> (the message is the one of V8); of a repeated key of an object the last
  value counts; a missing key reads as \<^verbatim>\<open>undefined\<close>. The function is meant for the keys
  of \<open>probeKeys\<close> and for \<^verbatim>\<open>error\<close> and \<^verbatim>\<open>uploadTime\<close>: the names that an object,
  an array or a string inherits (\<^verbatim>\<open>length\<close>, \<^verbatim>\<open>constructor\<close>, ...) are not modelled.
\<close>

definition objField :: "(string \<times> jsval) list \<Rightarrow> string \<Rightarrow> jsval" where
  "objField kvs key = (case map_of (rev kvs) key of None \<Rightarrow> Undefined | Some v \<Rightarrow> v)"

definition getProp :: "jsval \<Rightarrow> string \<Rightarrow> string + jsval" where
  "getProp data key =
     (case data of
        JNull \<Rightarrow> Inl (''Cannot read properties of null (reading '' @ [CHR 0x27] @ key @ [CHR 0x27] @ '')'')
      | Undefined \<Rightarrow>
          Inl (''Cannot read properties of undefined (reading '' @ [CHR 0x27] @ key @ [CHR 0x27] @ '')'')
      | JObj kvs \<Rightarrow> Inr (objField kvs key)
      | _ \<Rightarrow> Inr Undefined)"

subsection \<open>The network and the clock\<close>

text \<open>
  What a \<^verbatim>\<open>fetch\<close> gives: a rejection with the message of its error, or a response with
  its status, its status text and what \<^verbatim>\<open>response.json()\<close> yields (a value, or the
  message of the error it throws).
\<close>

datatype json_result = JsonError string | Json jsval

datatype fetch_result = FetchError string | Response nat string json_result

definition ok :: "nat \<Rightarrow> bool" where
  "ok status = (200 \<le> status \<and> status \<le> 299)"

text \<open>The body of the download response is read chunk by chunk until the stream is done or a
  read fails.\<close>

datatype stream_end = Done | ReadError string

datatype download_result =
    DownloadError string
  | DownloadResponse "(8 word list list \<times> stream_end) option" "string option"

text \<open>
  What the outside world does during one cycle: the outcome of the \<open>i\<close>-th request (from
  \<open>0\<close>) to each probe endpoint, the download and the upload responses, the readings of
  \<^verbatim>\<open>Date.now()\<close> in the order of the source (\<open>nowPing\<close> is the one taken inside the
  function that overwrites the ping result, when that function runs), and the text of the
  local time.
\<close>

record Env =
  windowDefined :: bool
  fetchGet :: "string \<Rightarrow> nat \<Rightarrow> fetch_result"
  download :: download_result
  upload :: fetch_result
  nowStart :: int
  nowPing :: int
  nowDownloadStart :: int
  nowDownloadEnd :: int
  nowUploadStart :: int
  nowUploadEnd :: int
  timestampNow :: string

subsection \<open>The state of the page\<close>

text \<open>The fields of \<^verbatim>\<open>HistoryEntry\<close> are \<^verbatim>\<open>timestamp\<close>, \<^verbatim>\<open>ping\<close>,
  \<^verbatim>\<open>download\<close> and \<^verbatim>\<open>upload\<close>.\<close>

record HistoryEntry =
  timestamp :: string
  ping :: jsnum
  hdownload :: jsnum
  hupload :: jsnum

text \<open>
  The state variables of \<^verbatim>\<open>NetworkTestApp\<close> that a cycle writes, and three records that
  the source does not keep: the endpoints requested, in order, which counts the attempts; the
  values written under single keys of the result map, in order; and the error of a state
  function that threw. The functions passed to \<^verbatim>\<open>setResults\<close> run when React renders, not
  inside \<^verbatim>\<open>fetchTest\<close>; when one throws, the render fails and the component is taken off
  the page. From then on no setter has an effect: the state stays as it was, and
  \<open>renderError\<close> holds the message.
\<close>

record App =
  results :: "string \<rightharpoonup> jsval"
  loading :: bool
  progress :: jsnum
  history :: "HistoryEntry list"
  requests :: "string list"
  stores :: "(string \<times> jsval) list"
  renderError :: "string option"

definition initialApp :: App where
  "initialApp =
     \<lparr>results = Map.empty, loading = True, progress = Fin 0, history = [], requests = [],
      stores = [], renderError = None\<rparr>"

definition placeholders :: "string \<rightharpoonup> jsval" where
  "placeholders =
     map_of [(''ip'', JStr ''Fetching...''), (''ping'', JStr ''Testing...''),
             (''download'', JStr ''Testing...''), (''upload'', JStr ''Testing...''),
             (''nmap'', JStr ''Scanning...''), (''ports'', JStr ''Scanning...''),
             (''services'', JStr ''Detecting...''), (''vuln'', JStr ''Scanning...''),
             (''ssl'', JStr ''Checking...''), (''firewall'', JStr ''Checking...'')]"

text \<open>A setter on a page that is still rendered.\<close>

definition whenRendered :: "(App \<Rightarrow> App) \<Rightarrow> App \<Rightarrow> App" where
  "whenRendered f s = (if renderError s = None then f s else s)"

text \<open>
  \<^verbatim>\<open>setResults((prev) => ({ ...prev, [key]: e }))\<close>, where evaluating \<open>e\<close> gives the value
  \<open>Inr v\<close> or throws the error with the message \<open>Inl m\<close>.
\<close>

definition applyResult :: "string \<Rightarrow> string + jsval \<Rightarrow> App \<Rightarrow> App" where
  "applyResult key r =
     whenRendered (\<lambda>s. case r of
        Inl m \<Rightarrow> s\<lparr>renderError := Some m\<rparr>
      | Inr v \<Rightarrow> s\<lparr>results := (results s)(key \<mapsto> v), stores := stores s @ [(key, v)]\<rparr>)"

definition setResult :: "string \<Rightarrow> jsval \<Rightarrow> App \<Rightarrow> App" where
  "setResult key v = applyResult key (Inr v)"

subsection \<open>\<^verbatim>\<open>fetchTest\<close>\<close>

text \<open>The \<^verbatim>\<open>try\<close> block for one response, up to \<^verbatim>\<open>response.json()\<close>: the parsed
  body, or the message of the error thrown.\<close>

definition attempt :: "fetch_result \<Rightarrow> string + jsval" where
  "attempt r =
     (case r of
        FetchError m \<Rightarrow> Inl m
      | Response status statusText body \<Rightarrow>
          if \<not> ok status then Inl (''HTTP error! status: '' @ showNat status)
          else (case body of JsonError m \<Rightarrow> Inl m | Json data \<Rightarrow> Inr data))"

text \<open>
  The expression \<^verbatim>\<open>data[key] || `Error: ${data.error}`\<close> of the state function that
  \<^verbatim>\<open>fetchTest\<close> passes to \<^verbatim>\<open>setResults\<close>. It is evaluated when the function runs,
  outside the \<^verbatim>\<open>try\<close> block.
\<close>

definition resultUpdater :: "jsval \<Rightarrow> string \<Rightarrow> string + jsval" where
  "resultUpdater data key =
     (case getProp data key of
        Inl m \<Rightarrow> Inl m
      | Inr v \<Rightarrow>
          if truthy v then Inr v
          else (case getProp data ''error'' of
                  Inl m \<Rightarrow> Inl m
                | Inr e \<Rightarrow> Inr (JStr (''Error: '' @ toStr e))))"

function fetchTestLoop :: "Env \<Rightarrow> string \<Rightarrow> string \<Rightarrow> nat \<Rightarrow> nat \<Rightarrow> App \<Rightarrow> App" where
  "fetchTestLoop env endpoint key retries i s =
     (if i < retries then
        (let s1 = s\<lparr>requests := requests s @ [endpoint]\<rparr>
         in case attempt (fetchGet env endpoint i) of
              Inr data \<Rightarrow> applyResult key (resultUpdater data key) s1
            | Inl m \<Rightarrow>
                fetchTestLoop env endpoint key retries (i + 1)
                  (if i = retries - 1 then setResult key (JStr (''Request failed: '' @ m)) s1
                   else s1))
      else s)"
  by pat_completeness auto
termination
  by (relation "measure (\<lambda>(env, endpoint, key, retries, i, s). retries - i)") auto

declare fetchTestLoop.simps [simp del]

text \<open>Every call of the source leaves \<^verbatim>\<open>retries\<close> at its default of 3.\<close>

definition fetchTest :: "Env \<Rightarrow> string \<Rightarrow> string \<Rightarrow> App \<Rightarrow> App" where
  "fetchTest env endpoint key s = fetchTestLoop env endpoint key 3 0 s"

subsection \<open>\<^verbatim>\<open>fetchData\<close>\<close>

text \<open>The read loop of the download: the bytes received so far and the progress shown.\<close>

fun readChunks :: "8 word list list \<Rightarrow> jsnum \<Rightarrow> nat \<Rightarrow> jsnum \<Rightarrow> nat \<times> jsnum" where
  "readChunks [] contentLength receivedLength prog = (receivedLength, prog)"
| "readChunks (v # rest) contentLength receivedLength prog =
     (let received = receivedLength + length v
      in readChunks rest contentLength received
           (jsmul (jsdiv (Fin (of_nat received)) contentLength) (Fin 100)))"

text \<open>The speed in MB/s of \<open>blobSize\<close> bytes in \<open>ms\<close> milliseconds.\<close>

definition speedMBs :: "nat \<Rightarrow> jsnum \<Rightarrow> jsnum" where
  "speedMBs blobSize ms =
     jsdiv (jsdiv (jsdiv (Fin (of_nat blobSize)) (jsdiv ms (Fin 1000))) (Fin 1024)) (Fin 1024)"

text \<open>The \<^verbatim>\<open>try\<close>/\<^verbatim>\<open>catch\<close> around the upload: the state and \<^verbatim>\<open>uploadSpeed\<close> after it.
  Here the body is read inside the \<^verbatim>\<open>try\<close> block.\<close>

definition uploadProbe :: "Env \<Rightarrow> nat \<Rightarrow> App \<Rightarrow> App \<times> jsnum" where
  "uploadProbe env blobSize s =
     (let uploadStart = nowUploadStart env;
          s1 = s\<lparr>requests := requests s @ [''upload'']\<rparr>;
          failed = (\<lambda>m. (setResult ''upload'' (JStr (''Upload failed: '' @ m)) s1, Fin 0))
      in case upload env of
           FetchError m \<Rightarrow> failed m
         | Response status statusText body \<Rightarrow>
             if \<not> ok status then failed (''Upload failed: '' @ statusText)
             else (case body of
                     JsonError m \<Rightarrow> failed m
                   | Json uploadData \<Rightarrow>
                       (case getProp uploadData ''uploadTime'' of
                          Inl m \<Rightarrow> failed m
                        | Inr t \<Rightarrow>
                            (let uploadTime =
                                   (if truthy t then toNumber t
                                    else Fin (of_int (nowUploadEnd env - uploadStart)));
                                 uploadSpeed = speedMBs blobSize uploadTime
                             in (setResult ''upload''
                                   (JStr (''Upload Speed: '' @ toFixed2 uploadSpeed @ '' MB/s'')) s1,
                                 uploadSpeed)))))"

text \<open>The six scans of \<^verbatim>\<open>Promise.all\<close>. They run interleaved; each writes a key of its
  own, so the order in which they are composed here does not show in the results.\<close>

definition scanProbes :: "Env \<Rightarrow> App \<Rightarrow> App" where
  "scanProbes env s =
     fetchTest env ''firewall-check'' ''firewall''
       (fetchTest env ''ssl-check'' ''ssl''
         (fetchTest env ''vuln-scan'' ''vuln''
           (fetchTest env ''services'' ''services''
             (fetchTest env ''open-ports'' ''ports''
               (fetchTest env ''nmap'' ''nmap'' s)))))"

text \<open>
  The first steps of \<^verbatim>\<open>fetchData\<close>, up to the request of the download: the placeholders,
  the IP probe, the ping probe and the wall-clock value written over its result.
  \<^verbatim>\<open>fetchData\<close> is called by the mount effect or by a click, that is on a page that is
  rendered: its first two setters take effect.
\<close>

definition pingPhase :: "Env \<Rightarrow> App \<Rightarrow> App" where
  "pingPhase env s =
     (let s1 = s\<lparr>loading := True, results := placeholders\<rparr>;
          s2 = fetchTest env ''ip'' ''ip'' s1;
          startTime = (if windowDefined env then nowStart env else 0);
          s3 = fetchTest env ''ping'' ''ping'' s2;
          s4 = setResult ''ping'' (JStr (showInt (nowPing env - startTime) @ ''ms'')) s3
      in s4\<lparr>requests := requests s4 @ [''download'']\<rparr>)"

text \<open>
  One run of \<^verbatim>\<open>fetchData\<close>. The variable \<^verbatim>\<open>results\<close> of the source is the constant of
  the render in which this \<^verbatim>\<open>fetchData\<close> was made: it is the argument \<open>captured\<close>, and no
  \<^verbatim>\<open>setResults\<close> changes it. The state functions passed to \<^verbatim>\<open>setResults\<close> and
  \<^verbatim>\<open>setHistory\<close> apply to the state \<open>s\<close> in the order they are queued. A promise that
  rejects is \<open>Inl\<close> of the message and the state reached; \<^verbatim>\<open>console.error\<close> is not kept.
  After a render error the function goes on with its requests.
\<close>

definition fetchData :: "Env \<Rightarrow> (string \<rightharpoonup> jsval) \<Rightarrow> App \<Rightarrow> (string \<times> App) + App" where
  "fetchData env captured s =
     (let s5 = pingPhase env s;
          downloadStart = nowDownloadStart env
      in case download env of
           DownloadError m \<Rightarrow> Inl (m, s5)
         | DownloadResponse body contentLength \<Rightarrow>
             (case body of
                None \<Rightarrow> Inl (''Failed to read download stream'', s5)
              | Some (chunks, fin) \<Rightarrow>
                  (let header = (case contentLength of None \<Rightarrow> Fin 0 | Some h \<Rightarrow> strNumber h);
                       s6 = whenRendered
                              (\<lambda>t. t\<lparr>progress := snd (readChunks chunks header 0 (progress t))\<rparr>) s5
                   in case fin of
                        ReadError m \<Rightarrow> Inl (m, s6)
                      | Done \<Rightarrow>
                          (let blobSize = length (concat chunks);
                               downloadSpeed =
                                 speedMBs blobSize (Fin (of_int (nowDownloadEnd env - downloadStart)));
                               s7 = setResult ''download''
                                      (JStr (''Download Speed: '' @ toFixed2 downloadSpeed @ '' MB/s'')) s6;
                               s8 = fst (uploadProbe env blobSize s7);
                               uploadSpeed = snd (uploadProbe env blobSize s7);
                               s9 = scanProbes env s8;
                               entry = \<lparr>timestamp = timestampNow env,
                                        ping = parseFloat (case captured ''ping'' of
                                                             None \<Rightarrow> Undefined | Some v \<Rightarrow> v),
                                        hdownload = parseFloatStr (toFixed2 downloadSpeed),
                                        hupload = parseFloatStr (toFixed2 uploadSpeed)\<rparr>
                           in Inr (whenRendered
                                     (\<lambda>t. t\<lparr>history := history t @ [entry], loading := False\<rparr>) s9)))))"

text \<open>The cycle that the mount effect starts: its \<^verbatim>\<open>fetchData\<close> is the one of the first
  render, where \<^verbatim>\<open>results\<close> is the empty object. The cycle that a click on the refresh
  button starts: its \<^verbatim>\<open>fetchData\<close> is the one of the render on screen.\<close>

definition mountCycle :: "Env \<Rightarrow> (string \<times> App) + App" where
  "mountCycle env = fetchData env Map.empty initialApp"

definition clickCycle :: "Env \<Rightarrow> App \<Rightarrow> (string \<times> App) + App" where
  "clickCycle env s = fetchData env (results s) s"


subsection \<open>Environments of the examples\<close>

text \<open>
  A cycle in which every endpoint answers. The body of each answer holds every probe key, the
  ping endpoint reports \<^verbatim>\<open>{ping: 999}\<close>, the clock advances by 42 ms around the ping
  probe, the download delivers 4 bytes in two chunks within 1000 ms, and the server times the
  upload at 500 ms.
\<close>

definition exampleBody :: jsval where
  "exampleBody =
     JObj [(''ip'', JStr ''203.0.113.7''), (''ping'', JNum 999), (''nmap'', JStr ''up''),
           (''ports'', JStr ''22,443''), (''services'', JStr ''ssh''), (''vuln'', JStr ''none''),
           (''ssl'', JStr ''valid''), (''firewall'', JStr ''on'')]"

definition exampleEnv :: Env where
  "exampleEnv =
     \<lparr>windowDefined = True,
      fetchGet = (\<lambda>endpoint i. Response 200 ''OK'' (Json exampleBody)),
      download = DownloadResponse (Some ([[1, 2, 3], [4]], Done)) (Some ''4''),
      upload = Response 200 ''OK'' (Json (JObj [(''uploadTime'', JNum 500)])),
      nowStart = 1000, nowPing = 1042, nowDownloadStart = 1042, nowDownloadEnd = 2042,
      nowUploadStart = 2042, nowUploadEnd = 3042, timestampNow = ''10:00:00 AM''\<rparr>"







section \<open>Facts about the text forms of numbers\<close>

lemma lt10_cases: "d < 10 \<Longrightarrow> d \<in> {0, 1, 2, 3, 4, 5, 6, 7, 8, 9::nat}"
  by auto

lemma digitChar_props:
  assumes "d < 10"
  shows "isDigit (digitChar d)" and "digitVal (digitChar d) = d"
  using lt10_cases [OF assms]
  by (auto simp: digitChar_def isDigit_def digitVal_def)

lemma not_digit_dot: "\<not> isDigit (CHR ''.'')"
  by (simp add: isDigit_def)

lemma isDigit_not_sign: "isDigit c \<Longrightarrow> c \<noteq> CHR ''-'' \<and> c \<noteq> CHR ''+'' \<and> \<not> isSpace c"
  by (auto simp: isDigit_def isSpace_def)

lemma showNat_digits: "list_all isDigit (showNat n)"
proof (induction n rule: showNat.induct)
  case (1 n)
  show ?case
  proof (cases "n < 10")
    case True
    then show ?thesis by (simp add: showNat.simps [of n] digitChar_props)
  next
    case False
    then show ?thesis using 1 by (simp add: showNat.simps [of n] digitChar_props)
  qed
qed

lemma showNat_nonempty: "showNat n \<noteq> []"
  by (simp add: showNat.simps [of n])

lemma digitsVal_snoc: "digitsVal (ds @ [c]) = 10 * digitsVal ds + digitVal c"
  by (simp add: digitsVal_def)

lemma digitsVal_showNat: "digitsVal (showNat n) = n"
proof (induction n rule: showNat.induct)
  case (1 n)
  show ?case
  proof (cases "n < 10")
    case True
    then show ?thesis by (simp add: showNat.simps [of n] digitsVal_def digitChar_props)
  next
    case False
    then show ?thesis using 1
      by (simp add: showNat.simps [of n] digitsVal_snoc digitChar_props)
  qed
qed

lemma takeWhile_digits_then:
  "list_all isDigit ds \<Longrightarrow> \<not> isDigit c \<Longrightarrow> takeWhile isDigit (ds @ c # r) = ds"
  by (induction ds) auto

lemma dropWhile_digits_then:
  "list_all isDigit ds \<Longrightarrow> \<not> isDigit c \<Longrightarrow> dropWhile isDigit (ds @ c # r) = c # r"
  by (induction ds) auto

lemma takeWhile_all: "list_all P xs \<Longrightarrow> takeWhile P xs = xs"
  by (induction xs) auto

lemma dropWhile_all: "list_all P xs \<Longrightarrow> dropWhile P xs = []"
  by (induction xs) auto

text \<open>A text of digits, a point and digits parses to the number it denotes, with or without
  a minus sign in front, and nothing is left behind.\<close>

lemma parse_plain:
  assumes ds: "list_all isDigit ds" and ne: "ds \<noteq> []" and fs: "list_all isDigit fs"
  shows "parseDecimal (ds @ CHR ''.'' # fs)
         = Some (Fin (of_nat (digitsVal ds) + of_nat (digitsVal fs) / 10 ^ length fs), [])"
proof -
  let ?s = "ds @ CHR ''.'' # fs"
  obtain c cs where sn: "ds = c # cs" using ne by (cases ds) auto
  have dc: "isDigit c" using ds sn by simp
  have neg: "(case ?s of [] \<Rightarrow> False | c # r \<Rightarrow> c = CHR ''-'') = False"
    using isDigit_not_sign [OF dc] by (simp add: sn)
  have u: "(case ?s of [] \<Rightarrow> ?s | c # r \<Rightarrow> if c = CHR ''+'' \<or> c = CHR ''-'' then r else ?s) = ?s"
    using isDigit_not_sign [OF dc] by (simp add: sn)
  have ip: "takeWhile isDigit ?s = ds"
    by (rule takeWhile_digits_then [OF ds not_digit_dot])
  have r1: "dropWhile isDigit ?s = CHR ''.'' # fs"
    by (rule dropWhile_digits_then [OF ds not_digit_dot])
  show ?thesis
    apply (simp only: parseDecimal_def Let_def neg u ip r1)
    apply (simp add: ne takeWhile_all [OF fs] dropWhile_all [OF fs] parseExponent_def pow10_def)
    done
qed

lemma parse_minus:
  assumes ds: "list_all isDigit ds" and ne: "ds \<noteq> []" and fs: "list_all isDigit fs"
  shows "parseDecimal (CHR ''-'' # ds @ CHR ''.'' # fs)
         = Some (Fin (- (of_nat (digitsVal ds) + of_nat (digitsVal fs) / 10 ^ length fs)), [])"
proof -
  let ?s = "ds @ CHR ''.'' # fs"
  have ip: "takeWhile isDigit ?s = ds"
    by (rule takeWhile_digits_then [OF ds not_digit_dot])
  have r1: "dropWhile isDigit ?s = CHR ''.'' # fs"
    by (rule dropWhile_digits_then [OF ds not_digit_dot])
  show ?thesis
    apply (simp only: parseDecimal_def Let_def list.case if_True simp_thms ip r1)
    apply (simp add: ne takeWhile_all [OF fs] dropWhile_all [OF fs] parseExponent_def pow10_def)
    done
qed

lemma frac_digits:
  assumes "m < 100"
  shows "list_all isDigit [digitChar (m div 10), digitChar (m mod 10)]"
    and "digitsVal [digitChar (m div 10), digitChar (m mod 10)] = m"
proof -
  have a: "m div 10 < 10" using assms by simp
  have b: "m mod 10 < 10" by simp
  show "list_all isDigit [digitChar (m div 10), digitChar (m mod 10)]"
    using digitChar_props(1) [OF a] digitChar_props(1) [OF b] by simp
  show "digitsVal [digitChar (m div 10), digitChar (m mod 10)] = m"
    using digitChar_props(2) [OF a] digitChar_props(2) [OF b] by (simp add: digitsVal_def)
qed

lemma dropWhile_space_digits: "dropWhile isSpace (showNat q @ r) = showNat q @ r"
proof -
  obtain c cs where sn: "showNat q = c # cs"
    using showNat_nonempty [of q] by (cases "showNat q") auto
  have "isDigit c" using showNat_digits [of q] sn by simp
  then show ?thesis using isDigit_not_sign [of c] by (simp add: sn)
qed

text \<open>Parsing what \<^verbatim>\<open>toFixed(2)\<close> printed gives the number rounded to two decimals.\<close>

lemma parse_toFixed2: "parseFloatStr (toFixed2 (Fin x)) = Fin (round2 x)"
proof -
  define n where "n = nat \<lfloor>\<bar>x\<bar> * 100 + 1 / 2\<rfloor>"
  let ?fs = "[digitChar (n mod 100 div 10), digitChar (n mod 10)]"
  have m: "n mod 100 < 100" by simp
  have m10: "n mod 10 = n mod 100 mod 10" by (simp add: mod_mod_cancel)
  have fs: "list_all isDigit ?fs" and fv: "digitsVal ?fs = n mod 100"
    using frac_digits [OF m] by (simp_all add: m10 [symmetric])
  have val: "(of_nat (n div 100) :: rat) + of_nat (n mod 100) / 10 ^ length ?fs = of_nat n / 100"
  proof -
    have "(of_nat n :: rat) = of_nat (100 * (n div 100) + n mod 100)" by simp
    also have "\<dots> = 100 * of_nat (n div 100) + of_nat (n mod 100)"
      by (simp only: of_nat_add of_nat_mult of_nat_numeral)
    finally show ?thesis by simp
  qed
  have sp: "\<not> isSpace (CHR ''-'')" by (simp add: isSpace_def)
  show ?thesis
  proof (cases "x < 0")
    case True
    have tf: "toFixed2 (Fin x) = CHR ''-'' # showNat (n div 100) @ CHR ''.'' # ?fs"
      using True by (simp add: n_def Let_def)
    have pd: "parseDecimal (CHR ''-'' # showNat (n div 100) @ CHR ''.'' # ?fs)
            = Some (Fin (- (of_nat n / 100)), [])"
      using parse_minus [OF showNat_digits showNat_nonempty fs, of "n div 100"]
      by (simp only: digitsVal_showNat fv val)
    have "parseFloatStr (toFixed2 (Fin x)) = Fin (- (of_nat n / 100))"
      by (simp only: parseFloatStr_def tf dropWhile.simps sp if_False pd option.case prod.case)
    moreover have "round2 x = - (of_nat n / 100)"
      using True by (simp only: round2_def n_def if_True)
    ultimately show ?thesis by simp
  next
    case False
    have tf: "toFixed2 (Fin x) = showNat (n div 100) @ CHR ''.'' # ?fs"
      using False by (simp add: n_def Let_def)
    have pd: "parseDecimal (showNat (n div 100) @ CHR ''.'' # ?fs) = Some (Fin (of_nat n / 100), [])"
      using parse_plain [OF showNat_digits showNat_nonempty fs, of "n div 100"]
      by (simp only: digitsVal_showNat fv val)
    have "parseFloatStr (toFixed2 (Fin x)) = Fin (of_nat n / 100)"
      by (simp only: parseFloatStr_def tf dropWhile_space_digits pd option.case prod.case)
    moreover have "round2 x = of_nat n / 100"
      using False by (simp only: round2_def n_def if_False)
    ultimately show ?thesis by simp
  qed
qed

declare toFixed2.simps(4) [simp del]

lemma parse_toFixed2_js: "parseFloatStr (toFixed2 x) = jsround2 x"
proof (cases x)
  case (Fin q)
  then show ?thesis by (simp add: parse_toFixed2)
next
  case PosInf
  then show ?thesis
    by (simp add: parseFloatStr_def parseDecimal_def isSpace_def isDigit_def)
next
  case NegInf
  then show ?thesis
    by (simp add: parseFloatStr_def parseDecimal_def isSpace_def isDigit_def)
next
  case NaN
  then show ?thesis
    by (simp add: parseFloatStr_def parseDecimal_def isSpace_def isDigit_def)
qed


lemma round2_zero: "round2 0 = 0"
  by (simp add: round2_def)

lemma round2_of_nat: "round2 (of_nat n) = of_nat n"
proof -
  have "\<lfloor>(of_nat n :: rat) * 100 + 1 / 2\<rfloor> = int (n * 100)"
    by (rule floor_unique) simp_all
  then show ?thesis by (simp add: round2_def)
qed

lemma round2_numeral: "round2 (numeral w) = numeral w"
  using round2_of_nat [of "numeral w"] by simp

lemma round2_one: "round2 1 = 1"
  using round2_of_nat [of 1] by simp

lemma round2_error: "\<bar>round2 x - x\<bar> \<le> 1 / 200"
proof -
  define y where "y = \<bar>x\<bar> * 100 + 1 / 2"
  define k where "k = \<lfloor>y\<rfloor>"
  have y0: "0 \<le> y" by (simp add: y_def)
  then have f0: "0 \<le> k" by (simp add: k_def)
  have n: "(of_nat (nat k) :: rat) = of_int k" using f0 by simp
  have lo: "of_int k \<le> y" and hi: "y < of_int k + 1" unfolding k_def by linarith+
  have r: "round2 x = (if x < 0 then - (of_int k / 100) else of_int k / 100)"
    by (simp only: round2_def y_def [symmetric] k_def [symmetric] n)
  show ?thesis
  proof (cases "x < 0")
    case True
    then have "y = - x * 100 + 1 / 2" by (simp add: y_def)
    with lo hi True show ?thesis unfolding r by (simp add: abs_if)
  next
    case False
    then have "y = x * 100 + 1 / 2" by (simp add: y_def)
    with lo hi False show ?thesis unfolding r by (simp add: abs_if)
  qed
qed

lemma round2_mono:
  assumes "0 \<le> x" "x \<le> y"
  shows "round2 x \<le> round2 y"
proof -
  have "\<lfloor>\<bar>x\<bar> * 100 + 1 / 2\<rfloor> \<le> \<lfloor>\<bar>y\<bar> * 100 + 1 / 2\<rfloor>"
    using assms by (intro floor_mono) simp
  then have "nat \<lfloor>\<bar>x\<bar> * 100 + 1 / 2\<rfloor> \<le> nat \<lfloor>\<bar>y\<bar> * 100 + 1 / 2\<rfloor>" by simp
  then have "(of_nat (nat \<lfloor>\<bar>x\<bar> * 100 + 1 / 2\<rfloor>) :: rat) \<le> of_nat (nat \<lfloor>\<bar>y\<bar> * 100 + 1 / 2\<rfloor>)"
    by (simp only: of_nat_le_iff)
  then show ?thesis using assms by (simp add: round2_def divide_right_mono)
qed

section \<open>Facts about the estimator\<close>

lemma convertLoop_stop:
  "\<not> (jsge sz (Fin 1024) \<and> unitIndex < length units - 1) \<Longrightarrow>
   convertLoop sz unitIndex = (sz, unitIndex)"
  by (subst convertLoop.simps) (simp only: if_False)

lemma convertLoop_step:
  "jsge sz (Fin 1024) \<and> unitIndex < length units - 1 \<Longrightarrow>
   convertLoop sz unitIndex = convertLoop (jsdiv sz (Fin 1024)) (unitIndex + 1)"
  by (subst convertLoop.simps) (simp only: if_True simp_thms)

lemma unitSizes_rank: "unitSizes u = 1024 ^ unitRank u"
  by (cases u) simp_all

lemma unitRank_le: "unitRank u \<le> 4"
  by (cases u) simp_all

lemma rank_units: "k \<le> 4 \<Longrightarrow> unitRank (units ! k) = k"
proof -
  assume "k \<le> 4"
  then have "k \<in> {0, 1, 2, 3, 4}" by auto
  then show ?thesis by (auto simp: units_def)
qed

text \<open>The loop never lowers the unit index and never takes it beyond the last unit.\<close>

lemma convertLoop_index_ge: "unitIndex \<le> snd (convertLoop sz unitIndex)"
proof (induction sz unitIndex rule: convertLoop.induct)
  case (1 sz unitIndex)
  show ?case
  proof (cases "jsge sz (Fin 1024) \<and> unitIndex < length units - 1")
    case True
    with 1 show ?thesis by (simp add: convertLoop_step [OF True])
  next
    case False
    then show ?thesis by (simp add: convertLoop_stop [OF False])
  qed
qed

lemma convertLoop_index_le: "unitIndex \<le> 4 \<Longrightarrow> snd (convertLoop sz unitIndex) \<le> 4"
proof (induction sz unitIndex rule: convertLoop.induct)
  case (1 sz unitIndex)
  show ?case
  proof (cases "jsge sz (Fin 1024) \<and> unitIndex < length units - 1")
    case True
    then have "unitIndex + 1 \<le> 4" by (simp add: units_def)
    with 1 True show ?thesis by (simp add: convertLoop_step [OF True])
  next
    case False
    with 1 show ?thesis by (simp add: convertLoop_stop [OF False])
  qed
qed

text \<open>On a finite number the loop divides by a power of 1024 and raises the index by the
  exponent.\<close>

lemma convertLoop_Fin: "\<exists>k. convertLoop (Fin b) i = (Fin (b / 1024 ^ k), i + k)"
proof (induction "Fin b" i arbitrary: b rule: convertLoop.induct)
  case (1 i b)
  show ?case
  proof (cases "jsge (Fin b) (Fin 1024) \<and> i < length units - 1")
    case True
    have "jsdiv (Fin b) (Fin 1024) = Fin (b / 1024)" by simp
    from 1 [OF True this] obtain k where
      k: "convertLoop (Fin (b / 1024)) (i + 1) = (Fin (b / 1024 / 1024 ^ k), i + 1 + k)"
      by blast
    have "convertLoop (Fin b) i = (Fin (b / 1024 ^ Suc k), i + Suc k)"
      using k by (simp add: convertLoop_step [OF True])
    then show ?thesis by blast
  next
    case False
    then have "convertLoop (Fin b) i = (Fin (b / 1024 ^ 0), i + 0)"
      by (simp add: convertLoop_stop [OF False])
    then show ?thesis by blast
  qed
qed

lemma convertLoop_scaled:
  "1 \<le> x \<Longrightarrow> i + j \<le> 4 \<Longrightarrow> convertLoop (Fin (x * 1024 ^ j)) i = convertLoop (Fin x) (i + j)"
proof (induction j arbitrary: i)
  case 0
  then show ?case by simp
next
  case (Suc j)
  have "1 * 1 \<le> x * 1024 ^ j" using Suc.prems(1) by (intro mult_mono) simp_all
  then have big: "1024 \<le> x * 1024 ^ Suc j" by simp
  have lt: "i < length units - 1" using Suc.prems(2) by (simp add: units_def)
  have "convertLoop (Fin (x * 1024 ^ Suc j)) i = convertLoop (Fin (x * 1024 ^ j)) (i + 1)"
    using big lt by (subst convertLoop_step) simp_all
  also have "\<dots> = convertLoop (Fin x) (i + 1 + j)"
    using Suc.prems by (intro Suc.IH) simp_all
  finally show ?case by simp
qed

lemma convertFromBytes_Fin:
  "\<exists>k\<le>4. convertFromBytes (Fin b) = (Fin (round2 (b / 1024 ^ k)), units ! k)
      \<and> snd (convertLoop (Fin b) 0) = k"
proof -
  obtain k where k: "convertLoop (Fin b) 0 = (Fin (b / 1024 ^ k), 0 + k)"
    using convertLoop_Fin [of b 0] by blast
  have "k \<le> 4" using convertLoop_index_le [of 0 "Fin b"] k by simp
  moreover have "convertFromBytes (Fin b) = (Fin (round2 (b / 1024 ^ k)), units ! k)"
    using k by (simp add: convertFromBytes_def parse_toFixed2)
  ultimately show ?thesis using k by auto
qed

lemma convertFromBytes_values:
  "convertFromBytes (Fin 0) = (Fin 0, Bytes)"
  "convertFromBytes (Fin 50) = (Fin 50, Bytes)"
  "convertFromBytes (Fin 100) = (Fin 100, Bytes)"
  "convertFromBytes (Fin 512) = (Fin 512, Bytes)"
  "convertFromBytes (Fin 1024) = (Fin 1, KB)"
  "convertFromBytes (Fin 10485760) = (Fin 10, MB)"
  by (simp_all add: convertFromBytes_def convertLoop.simps parse_toFixed2 round2_zero
      round2_numeral round2_one units_def)

lemma total_fold:
  "0 \<le> a \<Longrightarrow> list_all (\<lambda>f. nonnegFinite (fsize f)) fs \<Longrightarrow>
   \<exists>T\<ge>0. foldl (\<lambda>sum file. jsadd sum (convertToBytes (fsize file) (funit file))) (Fin a) fs = Fin T"
proof (induction fs arbitrary: a)
  case Nil
  then show ?case by simp
next
  case (Cons f fs)
  from Cons.prems(2) obtain s where s: "fsize f = Fin s" "0 \<le> s"
    by (cases "fsize f") simp_all
  have u: "0 \<le> unitSizes (funit f)" by (cases "funit f") simp_all
  have "0 \<le> a + s * unitSizes (funit f)" using Cons.prems(1) s(2) u by simp
  from Cons.IH [OF this] Cons.prems(2) show ?case
    by (simp add: s(1) convertToBytes_def)
qed

text \<open>The modifiers multiply a finite speed by a positive factor.\<close>

lemma effectiveSpeed_Fin: "\<exists>m>0. effectiveSpeed st (Fin d) = Fin (d * m)"
proof -
  define a :: rat where "a = (if isVpnEnabled st then 9 / 10 else 1)"
  define b :: rat where "b = (if connectionType st = Ethernet then 12 / 10 else 1)"
  define c :: rat where "c = (if transferType st = P2p then 8 / 10 else 1)"
  have "0 < a" "0 < b" "0 < c" by (simp_all add: a_def b_def c_def)
  then have "0 < a * b * c" by simp
  moreover have "effectiveSpeed st (Fin d) = Fin (d * (a * b * c))"
    by (simp add: effectiveSpeed_def a_def b_def c_def)
  ultimately show ?thesis by blast
qed

lemma time_Fin:
  "e \<noteq> 0 \<Longrightarrow> networkLatency st = Fin l \<Longrightarrow>
   calculateTimeWithLatency st (Fin s) (Fin e) = Fin (s * 8 / (e * 1024 * 1024) + l / 1000)"
  by (simp add: calculateTimeWithLatency_def calculateTime_def)

lemma cloudSpeedFactors_values:
  "cloudSpeedFactors ''none'' = Some (Fin 1)"
  "cloudSpeedFactors ''google-drive'' = Some (Fin (9 / 10))"
  "cloudSpeedFactors ''aws-s3'' = Some (Fin (11 / 10))"
  "cloudSpeedFactors ''onedrive'' = Some (Fin (95 / 100))"
  by (simp_all add: cloudSpeedFactors_def)

lemma cloud_factor_nonzero:
  assumes "p \<in> {''none'', ''google-drive'', ''aws-s3'', ''onedrive''}"
  shows "\<exists>f. f \<noteq> 0 \<and> cloudSpeedFactors p = Some (Fin f)"
proof -
  from assms consider "p = ''none''" | "p = ''google-drive''" | "p = ''aws-s3''" | "p = ''onedrive''"
    by auto
  then show ?thesis
  proof cases
    case 1
    then show ?thesis by (intro exI [of _ 1]) (simp add: cloudSpeedFactors_values)
  next
    case 2
    then show ?thesis by (intro exI [of _ "9 / 10"]) (simp add: cloudSpeedFactors_values)
  next
    case 3
    then show ?thesis by (intro exI [of _ "11 / 10"]) (simp add: cloudSpeedFactors_values)
  next
    case 4
    then show ?thesis by (intro exI [of _ "95 / 100"]) (simp add: cloudSpeedFactors_values)
  qed
qed

lemma cloud_time_of_provider:
  "cloudUploadTime (handleEstimate (st\<lparr>cloudProvider := p\<rparr>))
     = calculateTimeWithLatency st (finalSize st)
         (jsmul (uploadSpeed st) (case cloudSpeedFactors p of None \<Rightarrow> NaN | Some f \<Rightarrow> f))"
proof -
  have "finalSize (st\<lparr>cloudProvider := p\<rparr>) = finalSize st"
    by (simp add: finalSize_def totalSizeBytes_def Let_def)
  moreover have "calculateTimeWithLatency (st\<lparr>cloudProvider := p\<rparr>) = calculateTimeWithLatency st"
    by (simp add: fun_eq_iff calculateTimeWithLatency_def)
  ultimately show ?thesis
    by (simp add: handleEstimate_def estimateCloudUploadTime_def)
qed

lemma cloud_time_modifiers:
  "cloudUploadTime (handleEstimate (st\<lparr>isVpnEnabled := v, connectionType := c, transferType := t\<rparr>))
     = cloudUploadTime (handleEstimate st)"
proof -
  let ?st = "st\<lparr>isVpnEnabled := v, connectionType := c, transferType := t\<rparr>"
  have "finalSize ?st = finalSize st"
    by (simp add: finalSize_def totalSizeBytes_def Let_def)
  moreover have "calculateTimeWithLatency ?st = calculateTimeWithLatency st"
    by (simp add: fun_eq_iff calculateTimeWithLatency_def)
  ultimately show ?thesis
    by (simp add: handleEstimate_def estimateCloudUploadTime_def)
qed

lemma totalSizeBytes_rate:
  assumes "list_all (\<lambda>f. nonnegFinite (fsize f)) (files st)" and "compressionEnabled st"
  shows "\<exists>T\<ge>0. \<forall>r. totalSizeBytes (st\<lparr>compressionRate := Fin r\<rparr>) = Fin (T * (1 - r / 100))"
proof -
  obtain T where T: "0 \<le> T"
    "foldl (\<lambda>sum file. jsadd sum (convertToBytes (fsize file) (funit file))) (Fin 0) (files st) = Fin T"
    using total_fold [OF order_refl assms(1)] by blast
  have "totalSizeBytes (st\<lparr>compressionRate := Fin r\<rparr>) = Fin (T * (1 - r / 100))" for r
    using assms(2) by (simp add: totalSizeBytes_def Let_def T(2) jssub_def)
  with T(1) show ?thesis by blast
qed

lemma downloadTime_rate:
  assumes "downloadSpeed st = Fin d" and "0 < d" and "networkLatency st = Fin l"
  shows "\<exists>e>0. \<forall>r s. finalSize (st\<lparr>compressionRate := Fin r\<rparr>) = Fin s \<longrightarrow>
           downloadTime (handleEstimate (st\<lparr>compressionRate := Fin r\<rparr>))
             = Fin (s * 8 / (e * 1024 * 1024) + l / 1000)"
proof -
  obtain m where m: "0 < m" "effectiveSpeed st (Fin d) = Fin (d * m)"
    using effectiveSpeed_Fin by blast
  have e: "0 < d * m" using assms(2) m(1) by simp
  have "downloadTime (handleEstimate (st\<lparr>compressionRate := Fin r\<rparr>))
             = Fin (s * 8 / (d * m * 1024 * 1024) + l / 1000)"
    if "finalSize (st\<lparr>compressionRate := Fin r\<rparr>) = Fin s" for r s
  proof -
    let ?st = "st\<lparr>compressionRate := Fin r\<rparr>"
    have es: "effectiveSpeed ?st (downloadSpeed st) = Fin (d * m)"
      using m(2) by (simp add: effectiveSpeed_def assms(1))
    have nl: "networkLatency ?st = Fin l" using assms(3) by simp
    have dm: "d * m \<noteq> 0" using assms(2) m(1) by simp
    show ?thesis
      using time_Fin [OF dm nl, of s] by (simp add: handleEstimate_def that es)
  qed
  with e show ?thesis by blast
qed

lemma oneFile_total:
  "totalSizeBytes (oneFile b\<lparr>compressionRate := Fin r\<rparr>) = Fin (b * (1 - r / 100))"
  by (simp add: oneFile_def initialEstimator_def totalSizeBytes_def convertToBytes_def jssub_def)

lemma oneFile_time:
  "downloadTime (handleEstimate (oneFile b\<lparr>compressionRate := Fin r\<rparr>))
     = jsdiv (jsmul (fst (convertFromBytes (Fin (b * (1 - r / 100))))) (Fin 8)) (Fin (1024 * 1024))"
proof -
  have "jsadd (jsdiv x (Fin 1048576)) (Fin 0) = jsdiv x (Fin 1048576)" for x
    by (cases x) (simp_all add: infOfSign_def)
  then show ?thesis
    by (simp add: handleEstimate_def finalSize_def oneFile_total effectiveSpeed_def
      calculateTimeWithLatency_def calculateTime_def) (simp add: oneFile_def initialEstimator_def)
qed

section \<open>Facts about the estimate in rounded arithmetic\<close>

text \<open>Without rounding the functions are the exact ones.\<close>

lemma rounded_values:
  "rounded rnd (Fin q) = rnd q" "rounded rnd PosInf = PosInf"
  "rounded rnd NegInf = NegInf" "rounded rnd NaN = NaN"
  by (simp_all add: rounded_def)

lemma rounded_exact: "rounded Fin x = x"
  by (cases x) (simp_all add: rounded_def)

lemma rounding_exact: "rounding Fin"
  by (simp add: rounding_def)

lemma convertLoopR_stop:
  "\<not> (jsge sz (Fin 1024) \<and> unitIndex < length units - 1) \<Longrightarrow>
   convertLoopR rnd sz unitIndex = (sz, unitIndex)"
  by (subst convertLoopR.simps) (simp only: if_False)

lemma convertLoopR_step:
  "jsge sz (Fin 1024) \<and> unitIndex < length units - 1 \<Longrightarrow>
   convertLoopR rnd sz unitIndex
     = convertLoopR rnd (rounded rnd (jsdiv sz (Fin 1024))) (unitIndex + 1)"
  by (subst convertLoopR.simps) (simp only: if_True simp_thms)

lemma convertLoopR_exact: "convertLoopR Fin sz unitIndex = convertLoop sz unitIndex"
proof (induction sz unitIndex rule: convertLoop.induct)
  case (1 sz unitIndex)
  show ?case
  proof (cases "jsge sz (Fin 1024) \<and> unitIndex < length units - 1")
    case True
    with 1 show ?thesis
      by (simp only: convertLoopR_step [OF True] convertLoop_step [OF True] rounded_exact)
  next
    case False
    then show ?thesis by (simp only: convertLoopR_stop [OF False] convertLoop_stop [OF False])
  qed
qed

lemma handleEstimateR_exact: "handleEstimateR Fin st = handleEstimate st"
proof -
  have c: "convertFromBytesR Fin b = convertFromBytes b" for b
    by (simp add: convertFromBytesR_def convertFromBytes_def convertLoopR_exact rounded_exact)
  have t: "totalSizeBytesR Fin st = totalSizeBytes st"
    by (simp add: totalSizeBytesR_def totalSizeBytes_def convertToBytesR_def convertToBytes_def
        rounded_exact Let_def)
  have f: "finalSizeR Fin st = finalSize st"
    by (simp add: finalSizeR_def finalSize_def c t)
  have e: "effectiveSpeedR Fin st speed = effectiveSpeed st speed" for speed
    by (simp add: effectiveSpeedR_def effectiveSpeed_def rounded_exact)
  have l: "calculateTimeWithLatencyR Fin st sz speed = calculateTimeWithLatency st sz speed"
    for sz speed
    by (simp add: calculateTimeWithLatencyR_def calculateTimeWithLatency_def calculateTimeR_def
        calculateTime_def bitsPerSecondR_def rounded_exact)
  have u: "estimateCloudUploadTimeR Fin st sz = estimateCloudUploadTime st sz" for sz
    by (simp add: estimateCloudUploadTimeR_def estimateCloudUploadTime_def rounded_exact l
        split: option.splits)
  show ?thesis
    by (simp add: handleEstimateR_def handleEstimate_def f e l u)
qed

text \<open>The order \<^verbatim>\<open>>=\<close> on the numbers other than \<open>NaN\<close>.\<close>

lemma jsge_numbers: "jsge a b \<Longrightarrow> a \<noteq> NaN \<and> b \<noteq> NaN"
  by (cases a; cases b) simp_all

lemma jsge_top: "y \<noteq> NaN \<Longrightarrow> jsge PosInf y"
  by (cases y) simp_all

lemma jsge_bottom: "x \<noteq> NaN \<Longrightarrow> jsge x NegInf"
  by (cases x) simp_all

lemma jsge_trans: "jsge a b \<Longrightarrow> jsge b c \<Longrightarrow> jsge a c"
  by (cases a; cases b; cases c) simp_all

text \<open>A rounding, and an operation followed by a rounding, keep the order.\<close>

lemma rounding_mono: "rounding rnd \<Longrightarrow> x \<le> y \<Longrightarrow> jsge (rnd y) (rnd x)"
  by (simp add: rounding_def)

lemma rounding_number: "rounding rnd \<Longrightarrow> rnd x \<noteq> NaN"
  by (simp add: rounding_def)

lemma rounding_zero: "rounding rnd \<Longrightarrow> rnd 0 = Fin 0"
  by (simp add: rounding_def)

lemma rounding_one: "rounding rnd \<Longrightarrow> rnd 1 = Fin 1"
  by (simp add: rounding_def)

lemma rounding_fixed: "rounding rnd \<Longrightarrow> rnd x = Fin y \<Longrightarrow> rnd y = Fin y"
  unfolding rounding_def by blast

lemma rounded_mono:
  assumes "rounding rnd" and "jsge y x"
  shows "jsge (rounded rnd y) (rounded rnd x)"
proof -
  have n: "rnd q \<noteq> NaN" for q using assms(1) by (rule rounding_number)
  show ?thesis
  proof (cases x)
    case (Fin a)
    show ?thesis
    proof (cases y)
      case (Fin b)
      with \<open>x = Fin a\<close> assms show ?thesis by (simp add: rounded_values rounding_mono)
    qed (use Fin assms(2) n in \<open>simp_all add: rounded_values jsge_top\<close>)
  next
    case NegInf
    with assms(2) n show ?thesis by (cases y) (simp_all add: rounded_values jsge_bottom)
  next
    case PosInf
    with assms(2) show ?thesis by (cases y) (simp_all add: rounded_values)
  next
    case NaN
    with assms(2) show ?thesis by (cases y) simp_all
  qed
qed

text \<open>The numbers that are not negative: the finite ones from 0 on and \<open>Infinity\<close>.\<close>

lemma nonneg_cases: "nonneg x \<Longrightarrow> (\<exists>a. x = Fin a \<and> 0 \<le> a) \<or> x = PosInf"
  by (cases x) simp_all

lemma nonneg_rounding: "rounding rnd \<Longrightarrow> 0 \<le> q \<Longrightarrow> nonneg (rnd q)"
proof -
  assume r: "rounding rnd" and q: "0 \<le> q"
  have "jsge (rnd q) (Fin 0)" using rounding_mono [OF r q] by (simp add: rounding_zero [OF r])
  then show ?thesis by (cases "rnd q") simp_all
qed

lemma nonneg_rounded: "rounding rnd \<Longrightarrow> nonneg x \<Longrightarrow> nonneg (rounded rnd x)"
  by (cases x) (simp_all add: rounded_values nonneg_rounding)

lemma nonneg_above: "nonneg x \<Longrightarrow> jsge y x \<Longrightarrow> nonneg y"
  by (cases x; cases y) simp_all

lemma jsmul_mono: "0 < c \<Longrightarrow> jsge y x \<Longrightarrow> jsge (jsmul y (Fin c)) (jsmul x (Fin c))"
  by (cases x; cases y) (simp_all add: infOfSign_def)

lemma jsmul_nonneg: "0 < c \<Longrightarrow> nonneg x \<Longrightarrow> nonneg (jsmul x (Fin c))"
  by (cases x) (simp_all add: infOfSign_def)

lemma jsdiv_mono: "0 < c \<Longrightarrow> jsge y x \<Longrightarrow> jsge (jsdiv y (Fin c)) (jsdiv x (Fin c))"
  by (cases x; cases y) (simp_all add: infOfSign_def divide_right_mono)

lemma jsdiv_nonneg: "0 < c \<Longrightarrow> nonneg x \<Longrightarrow> nonneg (jsdiv x (Fin c))"
  by (cases x) (simp_all add: infOfSign_def)

lemma jsadd_mono: "jsge y x \<Longrightarrow> jsge (jsadd y (Fin l)) (jsadd x (Fin l))"
  by (cases x; cases y) simp_all

lemma jsadd_nonneg: "nonneg x \<Longrightarrow> nonneg y \<Longrightarrow> nonneg (jsadd x y)"
  by (cases x; cases y) simp_all

lemma round2_nonneg: "0 \<le> x \<Longrightarrow> 0 \<le> round2 x"
  by (simp add: round2_def)

lemma jsround2_mono: "nonneg x \<Longrightarrow> jsge y x \<Longrightarrow> jsge (jsround2 y) (jsround2 x)"
  by (cases x; cases y) (simp_all add: round2_mono)

lemma jsround2_nonneg: "nonneg x \<Longrightarrow> nonneg (jsround2 x)"
  by (cases x) (simp_all add: round2_nonneg)

text \<open>The total of the files is not negative.\<close>

lemma total_foldR:
  assumes "rounding rnd" and "list_all (\<lambda>f. nonnegFinite (fsize f)) fs"
  shows "nonneg (foldl (\<lambda>sum file.
            rounded rnd (jsadd sum (convertToBytesR rnd (fsize file) (funit file)))) (Fin 0) fs)"
  using assms(2)
proof (induction fs rule: rev_induct)
  case Nil
  show ?case by simp
next
  case (snoc f fs)
  then obtain a where a: "fsize f = Fin a" "0 \<le> a"
    by (cases "fsize f") simp_all
  have "0 < unitSizes (funit f)" by (cases "funit f") simp_all
  then have "0 \<le> a * unitSizes (funit f)" using a(2) by simp
  then have c: "nonneg (convertToBytesR rnd (fsize f) (funit f))"
    by (simp add: convertToBytesR_def a(1) rounded_values nonneg_rounding [OF assms(1)])
  from snoc have "nonneg (foldl (\<lambda>sum file.
            rounded rnd (jsadd sum (convertToBytesR rnd (fsize file) (funit file)))) (Fin 0) fs)"
    by simp
  with c show ?case
    by (simp add: nonneg_rounded [OF assms(1)] jsadd_nonneg)
qed

text \<open>Between 0 and 1 a rounding is finite, so the factor \<^verbatim>\<open>1 - compressionRate / 100\<close> is a
  finite number from 0 to 1 for a rate from 0 to 100.\<close>

lemma rounding_unit:
  assumes "rounding rnd" and "0 \<le> q" and "q \<le> 1"
  shows "\<exists>p. rnd q = Fin p \<and> 0 \<le> p \<and> p \<le> 1"
proof -
  have lo: "jsge (rnd q) (Fin 0)"
    using rounding_mono [OF assms(1,2)] by (simp add: rounding_zero [OF assms(1)])
  have hi: "jsge (Fin 1) (rnd q)"
    using rounding_mono [OF assms(1,3)] by (simp add: rounding_one [OF assms(1)])
  from lo hi show ?thesis by (cases "rnd q") simp_all
qed

lemma totalSizeBytesR_rate:
  assumes r: "rounding rnd"
    and en: "compressionEnabled st"
    and tot: "totalSizeBytesR rnd (st\<lparr>compressionEnabled := False\<rparr>) = Fin T"
    and rate: "0 \<le> c" "c \<le> 100"
  shows "\<exists>p f. rnd (c / 100) = Fin p \<and> rnd (1 - p) = Fin f \<and> 0 \<le> f
     \<and> totalSizeBytesR rnd (st\<lparr>compressionRate := Fin c\<rparr>) = rnd (T * f)"
proof -
  obtain p where p: "rnd (c / 100) = Fin p" "0 \<le> p" "p \<le> 1"
    using rounding_unit [OF r, of "c / 100"] rate by auto
  obtain f where f: "rnd (1 - p) = Fin f" "0 \<le> f" "f \<le> 1"
    using rounding_unit [OF r, of "1 - p"] p by auto
  have "totalSizeBytesR rnd (st\<lparr>compressionRate := Fin c\<rparr>) = rnd (T * f)"
    using tot en by (simp add: totalSizeBytesR_def rounded_values jssub_def p f)
  with p f show ?thesis by blast
qed

text \<open>
  The loop on two sizes, the first at least the second: the second ends at an index that is
  not larger, and when both end at the same index the first ends with a size that is at
  least the one of the second.
\<close>

lemma convertLoopR_index_ge: "unitIndex \<le> snd (convertLoopR rnd sz unitIndex)"
proof (induction rnd sz unitIndex rule: convertLoopR.induct)
  case (1 rnd sz unitIndex)
  show ?case
  proof (cases "jsge sz (Fin 1024) \<and> unitIndex < length units - 1")
    case True
    with 1 show ?thesis by (simp add: convertLoopR_step [OF True])
  next
    case False
    then show ?thesis by (simp add: convertLoopR_stop [OF False])
  qed
qed

lemma convertLoopR_index_le:
  "unitIndex \<le> 4 \<Longrightarrow> snd (convertLoopR rnd sz unitIndex) \<le> 4"
proof (induction rnd sz unitIndex rule: convertLoopR.induct)
  case (1 rnd sz unitIndex)
  show ?case
  proof (cases "jsge sz (Fin 1024) \<and> unitIndex < length units - 1")
    case True
    then have "unitIndex + 1 \<le> 4" by (simp add: units_def)
    with 1 True show ?thesis by (simp add: convertLoopR_step [OF True])
  next
    case False
    with 1 show ?thesis by (simp add: convertLoopR_stop [OF False])
  qed
qed

lemma convertLoopR_mono:
  assumes "rounding rnd" and "jsge a b" and "nonneg b"
  shows "snd (convertLoopR rnd b i) \<le> snd (convertLoopR rnd a i)
     \<and> nonneg (fst (convertLoopR rnd b i))
     \<and> (snd (convertLoopR rnd a i) = snd (convertLoopR rnd b i) \<longrightarrow>
          jsge (fst (convertLoopR rnd a i)) (fst (convertLoopR rnd b i)))"
  using assms(2,3)
proof (induction "length units - 1 - i" arbitrary: a b i)
  case 0
  then have "\<not> i < length units - 1" by linarith
  then have "\<not> (jsge x (Fin 1024) \<and> i < length units - 1)" for x by blast
  then show ?case using 0 by (simp add: convertLoopR_stop)
next
  case (Suc n)
  show ?case
  proof (cases "jsge b (Fin 1024) \<and> i < length units - 1")
    case True
    then have ta: "jsge a (Fin 1024) \<and> i < length units - 1"
      using Suc.prems(1) jsge_trans by blast
    have n: "n = length units - 1 - (i + 1)" using Suc.hyps(2) by simp
    have m: "jsge (rounded rnd (jsdiv a (Fin 1024))) (rounded rnd (jsdiv b (Fin 1024)))"
      using Suc.prems(1) by (intro rounded_mono [OF assms(1)] jsdiv_mono) simp_all
    have p: "nonneg (rounded rnd (jsdiv b (Fin 1024)))"
      using Suc.prems(2) by (intro nonneg_rounded [OF assms(1)] jsdiv_nonneg) simp_all
    show ?thesis
      unfolding convertLoopR_step [OF True] convertLoopR_step [OF ta]
      using n m p by (rule Suc.hyps(1))
  next
    case False
    have "i \<le> snd (convertLoopR rnd a i)" by (rule convertLoopR_index_ge)
    moreover have "snd (convertLoopR rnd a i) = i \<longrightarrow> fst (convertLoopR rnd a i) = a"
    proof (cases "jsge a (Fin 1024) \<and> i < length units - 1")
      case True
      have "i + 1 \<le> snd (convertLoopR rnd (rounded rnd (jsdiv a (Fin 1024))) (i + 1))"
        by (rule convertLoopR_index_ge)
      then show ?thesis by (simp add: convertLoopR_step [OF True])
    next
      case stop: False
      then show ?thesis by (simp add: convertLoopR_stop)
    qed
    ultimately show ?thesis
      using Suc.prems by (auto simp: convertLoopR_stop [OF False])
  qed
qed

text \<open>The time is not smaller for a size that is not smaller, when the divisor is finite and
  positive and the latency in seconds is finite; for the size 0 it is the latency.\<close>

lemma time_mono:
  assumes r: "rounding rnd"
    and d: "bitsPerSecondR rnd speed = Fin D" "0 < D"
    and l: "networkLatency st = Fin l" "rnd (l / 1000) = Fin L"
    and y: "jsge y1 y2"
  shows "jsge (calculateTimeWithLatencyR rnd st y1 speed) (calculateTimeWithLatencyR rnd st y2 speed)"
proof -
  have e: "(0 :: rat) < 8" by simp
  have a: "jsge (rounded rnd (jsmul y1 (Fin 8))) (rounded rnd (jsmul y2 (Fin 8)))"
    by (rule rounded_mono [OF r jsmul_mono [OF e y]])
  have b: "jsge (rounded rnd (jsdiv (rounded rnd (jsmul y1 (Fin 8))) (Fin D)))
                (rounded rnd (jsdiv (rounded rnd (jsmul y2 (Fin 8))) (Fin D)))"
    by (rule rounded_mono [OF r jsdiv_mono [OF d(2) a]])
  have "jsge (rounded rnd (jsadd (rounded rnd (jsdiv (rounded rnd (jsmul y1 (Fin 8))) (Fin D))) (Fin L)))
             (rounded rnd (jsadd (rounded rnd (jsdiv (rounded rnd (jsmul y2 (Fin 8))) (Fin D))) (Fin L)))"
    by (rule rounded_mono [OF r jsadd_mono [OF b]])
  then show ?thesis
    by (simp add: calculateTimeWithLatencyR_def calculateTimeR_def d(1) l rounded_values)
qed

lemma time_zero:
  assumes r: "rounding rnd"
    and d: "bitsPerSecondR rnd speed = Fin D" "0 < D"
    and l: "networkLatency st = Fin l" "rnd (l / 1000) = Fin L"
  shows "calculateTimeWithLatencyR rnd st (Fin 0) speed = Fin L"
  using d(2)
  by (simp add: calculateTimeWithLatencyR_def calculateTimeR_def d(1) l rounded_values
      rounding_zero [OF r] rounding_fixed [OF r l(2)])

lemma convertFromBytesR_zero: "rounding rnd \<Longrightarrow> convertFromBytesR rnd (Fin 0) = (Fin 0, Bytes)"
  by (simp add: convertFromBytesR_def convertLoopR_stop parse_toFixed2_js round2_zero
      rounded_values rounding_zero units_def)

lemma convertFromBytesR_exact: "convertFromBytesR Fin b = convertFromBytes b"
  by (simp add: convertFromBytesR_def convertFromBytes_def convertLoopR_exact rounded_exact)

lemma totalSizeBytesR_exact: "totalSizeBytesR Fin st = totalSizeBytes st"
  by (simp add: totalSizeBytesR_def totalSizeBytes_def convertToBytesR_def convertToBytes_def
      rounded_exact Let_def)

lemma downloadTimeR_rate:
  "downloadTime (handleEstimateR rnd (st\<lparr>compressionRate := c\<rparr>))
     = calculateTimeWithLatencyR rnd st
         (fst (convertFromBytesR rnd (totalSizeBytesR rnd (st\<lparr>compressionRate := c\<rparr>))))
         (effectiveSpeedR rnd st (downloadSpeed st))"
  by (simp add: handleEstimateR_def finalSizeR_def effectiveSpeedR_def
      calculateTimeWithLatencyR_def Let_def)

section \<open>The estimator: the properties of the specification\<close>

text \<open>
  C1. One file of size 10 with the unit MB, no compression, a download speed of 10, no
  latency, no VPN, wifi and a direct transfer: the download time is
  \<open>(10 * 8) / (10 * 1024 * 1024)\<close> seconds. The byte total is \<open>10 * 1024 * 1024\<close>;
  \<^verbatim>\<open>convertFromBytes\<close> turns it into the magnitude 10 of the unit MB, and the time formula is
  applied to that magnitude.
\<close>

theorem estimate_example:
  fixes st :: Estimator and n t :: string
  defines "st' \<equiv> st\<lparr>files := [\<lparr>fname = n, fsize = Fin 10, funit = MB, ftype = t\<rparr>],
    compressionEnabled := False, downloadSpeed := Fin 10, networkLatency := Fin 0,
    isVpnEnabled := False, connectionType := Wifi, transferType := Direct\<rparr>"
  shows "downloadTime (handleEstimate st') = Fin ((10 * 8) / (10 * 1024 * 1024))
    \<and> totalSizeBytes st' = Fin (10 * 1024 * 1024)
    \<and> convertFromBytes (totalSizeBytes st') = (Fin 10, MB)
    \<and> downloadTime (handleEstimate st') = calculateTime (Fin 10) (Fin 10)"
proof -
  have tot: "totalSizeBytes st' = Fin 10485760"
    by (simp add: st'_def totalSizeBytes_def convertToBytes_def)
  have "downloadTime (handleEstimate st') = Fin (80 / 10485760)"
    by (simp add: handleEstimate_def finalSize_def tot convertFromBytes_values effectiveSpeed_def
        calculateTimeWithLatency_def calculateTime_def) (simp add: st'_def)
  then show ?thesis using tot by (simp add: convertFromBytes_values calculateTime_def)
qed

text \<open>
  C3, as amended. In rounded arithmetic, for every rounding: with compression on, file sizes
  that are finite and not negative and whose byte total is finite, a download speed whose
  divisor \<^verbatim>\<open>speed * 1024 * 1024\<close>, after the modifiers, is finite and positive, and a
  finite latency whose value in seconds is finite: when the rate goes from \<open>r1\<close> up to \<open>r2\<close>
  within 0 to 100 and the compressed totals at both rates are normalised to the same unit,
  the download time does not go up; and at the rate 100 it is the latency in seconds.
\<close>

theorem compression_monotone_same_unit:
  assumes rnd: "rounding rnd"
    and fin: "list_all (\<lambda>f. nonnegFinite (fsize f)) (files st)"
    and tot: "totalSizeBytesR rnd (st\<lparr>compressionEnabled := False\<rparr>) = Fin T"
    and en: "compressionEnabled st"
    and spd: "bitsPerSecondR rnd (effectiveSpeedR rnd st (downloadSpeed st)) = Fin D" "0 < D"
    and lat: "networkLatency st = Fin l" "rnd (l / 1000) = Fin L"
    and rates: "0 \<le> r1" "r1 \<le> r2" "r2 \<le> 100"
    and same: "snd (convertFromBytesR rnd (totalSizeBytesR rnd (st\<lparr>compressionRate := Fin r1\<rparr>)))
             = snd (convertFromBytesR rnd (totalSizeBytesR rnd (st\<lparr>compressionRate := Fin r2\<rparr>)))"
  shows "jsge (downloadTime (handleEstimateR rnd (st\<lparr>compressionRate := Fin r1\<rparr>)))
              (downloadTime (handleEstimateR rnd (st\<lparr>compressionRate := Fin r2\<rparr>)))
       \<and> downloadTime (handleEstimateR rnd (st\<lparr>compressionRate := Fin 100\<rparr>)) = Fin L"
proof -
  have "nonneg (totalSizeBytesR rnd (st\<lparr>compressionEnabled := False\<rparr>))"
    using total_foldR [OF rnd fin] by (simp add: totalSizeBytesR_def)
  then have T0: "0 \<le> T" by (simp add: tot)
  obtain p1 f1 where p1: "rnd (r1 / 100) = Fin p1" and f1: "rnd (1 - p1) = Fin f1" "0 \<le> f1"
    and c1: "totalSizeBytesR rnd (st\<lparr>compressionRate := Fin r1\<rparr>) = rnd (T * f1)"
    using totalSizeBytesR_rate [OF rnd en tot, of r1] rates by auto
  obtain p2 f2 where p2: "rnd (r2 / 100) = Fin p2" and f2: "rnd (1 - p2) = Fin f2" "0 \<le> f2"
    and c2: "totalSizeBytesR rnd (st\<lparr>compressionRate := Fin r2\<rparr>) = rnd (T * f2)"
    using totalSizeBytesR_rate [OF rnd en tot, of r2] rates by auto
  have "jsge (rnd (r2 / 100)) (rnd (r1 / 100))"
    using rates by (intro rounding_mono [OF rnd]) simp
  then have "p1 \<le> p2" by (simp add: p1 p2)
  then have "jsge (rnd (1 - p1)) (rnd (1 - p2))"
    by (intro rounding_mono [OF rnd]) simp
  then have "f2 \<le> f1" by (simp add: f1 f2)
  then have m: "T * f2 \<le> T * f1" using T0 by (rule mult_left_mono)
  then have c: "jsge (rnd (T * f1)) (rnd (T * f2))" by (rule rounding_mono [OF rnd])
  have n: "nonneg (rnd (T * f2))" using T0 f2(2) by (intro nonneg_rounding [OF rnd]) simp
  define k1 where "k1 = snd (convertLoopR rnd (rnd (T * f1)) 0)"
  define k2 where "k2 = snd (convertLoopR rnd (rnd (T * f2)) 0)"
  define s1 where "s1 = fst (convertLoopR rnd (rnd (T * f1)) 0)"
  define s2 where "s2 = fst (convertLoopR rnd (rnd (T * f2)) 0)"
  have k: "k1 \<le> 4" "k2 \<le> 4" by (simp_all add: k1_def k2_def convertLoopR_index_le)
  have "units ! k1 = units ! k2"
    using same by (simp add: c1 c2 convertFromBytesR_def k1_def k2_def split: prod.splits)
  then have "unitRank (units ! k1) = unitRank (units ! k2)" by simp
  then have kk: "k1 = k2" by (simp add: rank_units k)
  have s: "nonneg s2" "jsge s1 s2"
    using convertLoopR_mono [OF rnd c n, of 0] kk by (simp_all add: k1_def k2_def s1_def s2_def)
  have y1: "fst (convertFromBytesR rnd (totalSizeBytesR rnd (st\<lparr>compressionRate := Fin r1\<rparr>)))
              = rounded rnd (jsround2 s1)"
    by (simp add: c1 convertFromBytesR_def s1_def parse_toFixed2_js split: prod.splits)
  have y2: "fst (convertFromBytesR rnd (totalSizeBytesR rnd (st\<lparr>compressionRate := Fin r2\<rparr>)))
              = rounded rnd (jsround2 s2)"
    by (simp add: c2 convertFromBytesR_def s2_def parse_toFixed2_js split: prod.splits)
  have "jsge (rounded rnd (jsround2 s1)) (rounded rnd (jsround2 s2))"
    using s by (intro rounded_mono [OF rnd] jsround2_mono)
  then have mono: "jsge (downloadTime (handleEstimateR rnd (st\<lparr>compressionRate := Fin r1\<rparr>)))
              (downloadTime (handleEstimateR rnd (st\<lparr>compressionRate := Fin r2\<rparr>)))"
    unfolding downloadTimeR_rate y1 y2 by (rule time_mono [OF rnd spd lat])
  obtain p f where p: "rnd (100 / 100) = Fin p" and f: "rnd (1 - p) = Fin f"
    and c100: "totalSizeBytesR rnd (st\<lparr>compressionRate := Fin 100\<rparr>) = rnd (T * f)"
    using totalSizeBytesR_rate [OF rnd en tot, of 100] by auto
  have "p = 1" using p by (simp add: rounding_one [OF rnd])
  then have "f = 0" using f by (simp add: rounding_zero [OF rnd])
  then have "totalSizeBytesR rnd (st\<lparr>compressionRate := Fin 100\<rparr>) = Fin 0"
    by (simp add: c100 rounding_zero [OF rnd])
  then have "downloadTime (handleEstimateR rnd (st\<lparr>compressionRate := Fin 100\<rparr>)) = Fin L"
    unfolding downloadTimeR_rate
    by (simp add: convertFromBytesR_zero [OF rnd] time_zero [OF rnd spd lat])
  with mono show ?thesis by simp
qed

text \<open>The theorem without rounding, at a file of 100 bytes and the rates 0 and 50, whose
  totals of 100 and 50 bytes both stay in the unit of bytes.\<close>

theorem compression_monotone_same_unit_witness:
  "rounding Fin
   \<and> jsge (downloadTime (handleEstimateR Fin (oneFile 100\<lparr>compressionRate := Fin 0\<rparr>)))
          (downloadTime (handleEstimateR Fin (oneFile 100\<lparr>compressionRate := Fin 50\<rparr>)))
   \<and> downloadTime (handleEstimateR Fin (oneFile 100\<lparr>compressionRate := Fin 100\<rparr>)) = Fin 0"
proof -
  have a: "list_all (\<lambda>f. nonnegFinite (fsize f)) (files (oneFile 100))"
    and b: "compressionEnabled (oneFile 100)"
    and d: "networkLatency (oneFile 100) = Fin 0"
    by (simp_all add: oneFile_def initialEstimator_def)
  have t: "totalSizeBytesR Fin (oneFile 100\<lparr>compressionEnabled := False\<rparr>) = Fin 100"
    by (simp add: totalSizeBytesR_exact totalSizeBytes_def convertToBytes_def oneFile_def
        initialEstimator_def)
  have c: "bitsPerSecondR Fin (effectiveSpeedR Fin (oneFile 100) (downloadSpeed (oneFile 100)))
             = Fin 1048576"
    by (simp add: bitsPerSecondR_def effectiveSpeedR_def rounded_exact oneFile_def
        initialEstimator_def)
  have e: "snd (convertFromBytesR Fin (totalSizeBytesR Fin (oneFile 100\<lparr>compressionRate := Fin 0\<rparr>)))
         = snd (convertFromBytesR Fin (totalSizeBytesR Fin (oneFile 100\<lparr>compressionRate := Fin 50\<rparr>)))"
    by (simp add: convertFromBytesR_exact totalSizeBytesR_exact oneFile_total
        convertFromBytes_values)
  show ?thesis
    using compression_monotone_same_unit [OF rounding_exact a t b c _ d _ _ _ _ e, of 0]
    by (simp add: rounding_exact)
qed

text \<open>
  Without the condition on the unit the property fails: for one file of 1024 bytes at the download speed 1 and no
  latency, the rate 0 leaves 1024 bytes, normalised to the magnitude 1 (KB), and the rate 50
  leaves 512 bytes, normalised to the magnitude 512 (bytes); the download time goes up from
  \<open>1 / 131072\<close> to \<open>1 / 256\<close> seconds.
\<close>

theorem compression_not_monotone:
  "downloadTime (handleEstimate (oneFile 1024\<lparr>compressionRate := Fin 0\<rparr>)) = Fin (1 / 131072)
   \<and> downloadTime (handleEstimate (oneFile 1024\<lparr>compressionRate := Fin 50\<rparr>)) = Fin (1 / 256)
   \<and> \<not> jsge (Fin (1 / 131072)) (Fin (1 / 256))"
  by (simp add: oneFile_time convertFromBytes_values)

text \<open>
  C4, as amended. For every positive size \<open>x\<close> and every unit \<open>u\<close> whose product
  \<open>x\<close> times the size of \<open>u\<close> is below \<open>maxProduct\<close>, so that the multiplication
  of \<^verbatim>\<open>convertToBytes\<close> does not overflow to \<^verbatim>\<open>Infinity\<close>,
  \<^verbatim>\<open>convertFromBytes(convertToBytes(x, u))\<close> returns a finite size within 0.01 of \<open>x\<close>
  re-expressed in the returned unit; the returned unit is \<open>u\<close> or a coarser one whenever
  \<open>x\<close> is at least 1.
\<close>

theorem convert_roundtrip:
  assumes "0 < x" and "x * unitSizes u < maxProduct"
  shows "\<exists>y u'. convertFromBytes (convertToBytes (Fin x) u) = (Fin y, u')
           \<and> \<bar>y - x * unitSizes u / unitSizes u'\<bar> \<le> 1 / 100
           \<and> (1 \<le> x \<longrightarrow> unitRank u \<le> unitRank u')"
proof -
  let ?b = "x * unitSizes u"
  obtain k where k4: "k \<le> 4"
    and cf: "convertFromBytes (Fin ?b) = (Fin (round2 (?b / 1024 ^ k)), units ! k)"
    and sk: "snd (convertLoop (Fin ?b) 0) = k"
    using convertFromBytes_Fin [of ?b] by blast
  have us: "unitSizes (units ! k) = 1024 ^ k"
    by (simp add: unitSizes_rank rank_units [OF k4])
  have err: "\<bar>round2 (?b / 1024 ^ k) - ?b / unitSizes (units ! k)\<bar> \<le> 1 / 100"
    using round2_error [of "?b / 1024 ^ k"] by (simp add: us)
  have coarse: "unitRank u \<le> unitRank (units ! k)" if "1 \<le> x"
  proof -
    have "convertLoop (Fin (x * 1024 ^ unitRank u)) 0 = convertLoop (Fin x) (0 + unitRank u)"
      using that unitRank_le [of u] by (intro convertLoop_scaled) simp_all
    then have "k = snd (convertLoop (Fin x) (unitRank u))"
      using sk by (simp add: unitSizes_rank)
    then have "unitRank u \<le> k" using convertLoop_index_ge [of "unitRank u" "Fin x"] by simp
    then show ?thesis by (simp add: rank_units [OF k4])
  qed
  show ?thesis
    using cf err coarse by (simp add: convertToBytes_def)
qed

text \<open>The theorem at a size of 1.5 MB.\<close>

theorem convert_roundtrip_witness:
  "0 < (3 / 2 :: rat) \<and> 3 / 2 * unitSizes MB < maxProduct
   \<and> (\<exists>y u'. convertFromBytes (convertToBytes (Fin (3 / 2)) MB) = (Fin y, u')
           \<and> \<bar>y - 3 / 2 * unitSizes MB / unitSizes u'\<bar> \<le> 1 / 100
           \<and> (1 \<le> (3 / 2 :: rat) \<longrightarrow> unitRank MB \<le> unitRank u'))"
proof -
  have b: "3 / 2 * unitSizes MB < maxProduct"
    by (simp add: maxProduct_def)
  show ?thesis
    using convert_roundtrip [of "3 / 2" MB] b by simp
qed

text \<open>For a size below 1 the unit can get finer: half a KB comes back as 512 bytes, a finer unit.\<close>

theorem convert_roundtrip_finer_unit:
  "convertFromBytes (convertToBytes (Fin (1 / 2)) KB) = (Fin 512, Bytes)
   \<and> unitRank Bytes < unitRank KB"
  by (simp add: convertToBytes_def convertFromBytes_values)

text \<open>
  C5, as amended. With no files, finite settings, a download and an upload speed that are
  not zero and one of the four cloud providers, the three times are the latency in seconds.
\<close>

theorem empty_files_latency:
  assumes "files st = []"
    and "downloadSpeed st = Fin d" and "d \<noteq> 0"
    and "uploadSpeed st = Fin u" and "u \<noteq> 0"
    and "compressionRate st = Fin r"
    and "networkLatency st = Fin l"
    and "cloudProvider st \<in> {''none'', ''google-drive'', ''aws-s3'', ''onedrive''}"
  shows "downloadTime (handleEstimate st) = Fin (l / 1000)
       \<and> uploadTime (handleEstimate st) = Fin (l / 1000)
       \<and> cloudUploadTime (handleEstimate st) = Fin (l / 1000)"
proof -
  have tot: "totalSizeBytes st = Fin 0"
    using assms(1,6) by (simp add: totalSizeBytes_def jssub_def Let_def)
  have fs: "finalSize st = Fin 0"
    by (simp add: finalSize_def tot convertFromBytes_values)
  obtain m where m: "0 < m" "effectiveSpeed st (Fin d) = Fin (d * m)"
    using effectiveSpeed_Fin by blast
  obtain m' where m': "0 < m'" "effectiveSpeed st (Fin u) = Fin (u * m')"
    using effectiveSpeed_Fin by blast
  have dl: "downloadTime (handleEstimate st) = Fin (l / 1000)"
    using m assms(3) time_Fin [of "d * m" st l 0, OF _ assms(7)]
    by (simp add: handleEstimate_def fs assms(2))
  have ul: "uploadTime (handleEstimate st) = Fin (l / 1000)"
    using m' assms(5) time_Fin [of "u * m'" st l 0, OF _ assms(7)]
    by (simp add: handleEstimate_def fs assms(4))
  have "\<exists>f. f \<noteq> 0 \<and> cloudSpeedFactors (cloudProvider st) = Some (Fin f)"
    by (rule cloud_factor_nonzero [OF assms(8)])
  then obtain f where f: "f \<noteq> 0" "cloudSpeedFactors (cloudProvider st) = Some (Fin f)"
    by blast
  have cl: "cloudUploadTime (handleEstimate st) = Fin (l / 1000)"
    using f assms(5) time_Fin [of "u * f" st l 0, OF _ assms(7)]
    by (simp add: handleEstimate_def estimateCloudUploadTime_def fs assms(4))
  show ?thesis using dl ul cl by simp
qed

text \<open>The theorem at the state of the first render: no files, the speeds 1 and 2, the
  latency 50 ms.\<close>

theorem empty_files_latency_witness:
  "downloadTime (handleEstimate initialEstimator) = Fin (50 / 1000)
       \<and> uploadTime (handleEstimate initialEstimator) = Fin (50 / 1000)
       \<and> cloudUploadTime (handleEstimate initialEstimator) = Fin (50 / 1000)"
  using empty_files_latency [of initialEstimator 1 2 50 50] by (simp add: initialEstimator_def)

text \<open>With a speed of zero the property fails: with no files and the download speed 0 the download
  time is \<open>0 / 0\<close>, which is \<open>NaN\<close>, and not the latency of 50 ms.\<close>

theorem empty_files_zero_speed:
  "downloadTime (handleEstimate (initialEstimator\<lparr>downloadSpeed := Fin 0\<rparr>)) = NaN
   \<and> NaN \<noteq> Fin (50 / 1000)"
proof -
  have tot: "totalSizeBytes (initialEstimator\<lparr>downloadSpeed := Fin 0\<rparr>) = Fin 0"
    by (simp add: totalSizeBytes_def initialEstimator_def)
  show ?thesis
    by (simp add: handleEstimate_def finalSize_def tot convertFromBytes_values effectiveSpeed_def
        calculateTimeWithLatency_def calculateTime_def)
      (simp add: initialEstimator_def infOfSign_def)
qed

text \<open>
  C6. For every state, the cloud upload time is the latency-inclusive time formula applied to
  the normalised size and to the base upload speed times the factor of the provider (1 for
  none, 0.9 for google-drive, 1.1 for aws-s3, 0.95 for onedrive); the VPN, the connection type
  and the transfer type do not change it.
\<close>

theorem cloud_upload_base_speed:
  "cloudUploadTime (handleEstimate (st\<lparr>cloudProvider := ''none''\<rparr>))
     = calculateTimeWithLatency st (finalSize st) (jsmul (uploadSpeed st) (Fin 1))
   \<and> cloudUploadTime (handleEstimate (st\<lparr>cloudProvider := ''google-drive''\<rparr>))
     = calculateTimeWithLatency st (finalSize st) (jsmul (uploadSpeed st) (Fin (9 / 10)))
   \<and> cloudUploadTime (handleEstimate (st\<lparr>cloudProvider := ''aws-s3''\<rparr>))
     = calculateTimeWithLatency st (finalSize st) (jsmul (uploadSpeed st) (Fin (11 / 10)))
   \<and> cloudUploadTime (handleEstimate (st\<lparr>cloudProvider := ''onedrive''\<rparr>))
     = calculateTimeWithLatency st (finalSize st) (jsmul (uploadSpeed st) (Fin (95 / 100)))
   \<and> cloudUploadTime (handleEstimate (st\<lparr>isVpnEnabled := v, connectionType := c, transferType := t\<rparr>))
     = cloudUploadTime (handleEstimate st)"
  by (simp only: cloud_time_of_provider cloudSpeedFactors_values cloud_time_modifiers option.case simp_thms)

section \<open>Facts about the probe cycle\<close>


lemma applyResult_frame:
  "(k \<noteq> key \<longrightarrow> results (applyResult key r s) k = results s k)
   \<and> loading (applyResult key r s) = loading s
   \<and> progress (applyResult key r s) = progress s
   \<and> history (applyResult key r s) = history s
   \<and> requests (applyResult key r s) = requests s
   \<and> (renderError (applyResult key r s) = None \<longrightarrow> renderError s = None)
   \<and> (renderError s \<noteq> None \<longrightarrow> applyResult key r s = s)"
  by (cases r) (auto simp: applyResult_def whenRendered_def)

lemma applyResult_fields:
  "k \<noteq> key \<Longrightarrow> results (applyResult key r s) k = results s k"
  "loading (applyResult key r s) = loading s"
  "progress (applyResult key r s) = progress s"
  "history (applyResult key r s) = history s"
  "requests (applyResult key r s) = requests s"
  using applyResult_frame [of k key r s] by simp_all

lemma setResult_frame:
  "(k \<noteq> key \<longrightarrow> results (setResult key v s) k = results s k)
   \<and> loading (setResult key v s) = loading s
   \<and> progress (setResult key v s) = progress s
   \<and> history (setResult key v s) = history s
   \<and> requests (setResult key v s) = requests s
   \<and> (renderError (setResult key v s) = None \<longrightarrow> renderError s = None)
   \<and> (renderError s \<noteq> None \<longrightarrow> setResult key v s = s)"
  unfolding setResult_def by (rule applyResult_frame)

text \<open>One turn of the retry loop: a failed attempt goes on to the next turn and stores its
  message only when it is the last one; an attempt that yields a body hands it to the state
  function and stops.\<close>

lemma fetchTestLoop_fail:
  assumes "i < retries" and "attempt (fetchGet env endpoint i) = Inl m"
  shows "fetchTestLoop env endpoint key retries i s =
         fetchTestLoop env endpoint key retries (i + 1)
           (if i = retries - 1
            then setResult key (JStr (''Request failed: '' @ m)) (s\<lparr>requests := requests s @ [endpoint]\<rparr>)
            else s\<lparr>requests := requests s @ [endpoint]\<rparr>)"
  using assms by (subst fetchTestLoop.simps) (simp add: Let_def)

lemma fetchTestLoop_body:
  assumes "i < retries" and "attempt (fetchGet env endpoint i) = Inr data"
  shows "fetchTestLoop env endpoint key retries i s =
         applyResult key (resultUpdater data key) (s\<lparr>requests := requests s @ [endpoint]\<rparr>)"
  using assms by (subst fetchTestLoop.simps) (simp add: Let_def)

lemma fetchTestLoop_done:
  "\<not> i < retries \<Longrightarrow> fetchTestLoop env endpoint key retries i s = s"
  by (subst fetchTestLoop.simps) simp

text \<open>A property of the state that the log of a request and the setter of the key keep is
  kept by the loop.\<close>

lemma fetchTestLoop_invariant:
  assumes log: "\<And>t. P t \<Longrightarrow> P (t\<lparr>requests := requests t @ [endpoint]\<rparr>)"
    and set: "\<And>t r. P t \<Longrightarrow> P (applyResult key r t)"
    and start: "P s"
  shows "P (fetchTestLoop env endpoint key retries i s)"
  using start
proof (induction "retries - i" arbitrary: i s)
  case 0
  then have "\<not> i < retries" by simp
  then show ?case using 0 by (simp add: fetchTestLoop_done)
next
  case (Suc n)
  then have lt: "i < retries" by simp
  have p1: "P (s\<lparr>requests := requests s @ [endpoint]\<rparr>)" using Suc.prems by (rule log)
  show ?case
  proof (cases "attempt (fetchGet env endpoint i)")
    case (Inr data)
    show ?thesis unfolding fetchTestLoop_body [OF lt Inr] using p1 by (rule set)
  next
    case (Inl m)
    have n: "n = retries - (i + 1)" using Suc.hyps(2) by simp
    have p2: "P (if i = retries - 1
            then setResult key (JStr (''Request failed: '' @ m)) (s\<lparr>requests := requests s @ [endpoint]\<rparr>)
            else s\<lparr>requests := requests s @ [endpoint]\<rparr>)"
      using p1 set [OF p1] by (simp add: setResult_def)
    show ?thesis unfolding fetchTestLoop_fail [OF lt Inl] using n p2 by (rule Suc.hyps(1))
  qed
qed

text \<open>What the loop leaves alone: every result but the one of its key, the loading flag, the
  progress and the history; it requests no endpoint but its own; it clears no render error,
  and after one it writes nothing.\<close>

lemma fetchTest_results: "k \<noteq> key \<Longrightarrow> results (fetchTest env endpoint key s) k = results s k"
  unfolding fetchTest_def
  by (rule fetchTestLoop_invariant [where P = "\<lambda>t. results t k = results s k"])
    (simp_all add: applyResult_fields)

lemma fetchTest_loading: "loading (fetchTest env endpoint key s) = loading s"
  unfolding fetchTest_def
  by (rule fetchTestLoop_invariant [where P = "\<lambda>t. loading t = loading s"])
    (simp_all add: applyResult_fields)

lemma fetchTest_history: "history (fetchTest env endpoint key s) = history s"
  unfolding fetchTest_def
  by (rule fetchTestLoop_invariant [where P = "\<lambda>t. history t = history s"])
    (simp_all add: applyResult_fields)

lemma fetchTest_requests:
  "set (requests (fetchTest env endpoint key s)) \<subseteq> insert endpoint (set (requests s))"
  unfolding fetchTest_def
  by (rule fetchTestLoop_invariant
      [where P = "\<lambda>t. set (requests t) \<subseteq> insert endpoint (set (requests s))"])
    (auto simp: applyResult_fields)

















lemma pingPhase_placeholder:
  "k \<noteq> ''ip'' \<Longrightarrow> k \<noteq> ''ping'' \<Longrightarrow> results (pingPhase env s) k = placeholders k"
proof -
  assume k: "k \<noteq> ''ip''" "k \<noteq> ''ping''"
  let ?s3 = "fetchTest env ''ping'' ''ping'' (fetchTest env ''ip'' ''ip'' (s\<lparr>loading := True, results := placeholders\<rparr>))"
  have "results (setResult ''ping'' v ?s3) k = placeholders k" for v
    using k setResult_frame [of k "''ping''" v ?s3] by (simp add: fetchTest_results)
  then show ?thesis by (simp add: pingPhase_def Let_def)
qed

lemma pingPhase_loading: "loading (pingPhase env s)"
proof -
  let ?s3 = "fetchTest env ''ping'' ''ping'' (fetchTest env ''ip'' ''ip'' (s\<lparr>loading := True, results := placeholders\<rparr>))"
  have "loading (setResult ''ping'' v ?s3)" for v
    using setResult_frame [of "''ping''" "''ping''" v ?s3] by (simp add: fetchTest_loading)
  then show ?thesis by (simp add: pingPhase_def Let_def)
qed

lemma pingPhase_history: "history (pingPhase env s) = history s"
proof -
  let ?s3 = "fetchTest env ''ping'' ''ping'' (fetchTest env ''ip'' ''ip'' (s\<lparr>loading := True, results := placeholders\<rparr>))"
  have "history (setResult ''ping'' v ?s3) = history s" for v
    using setResult_frame [of "''ping''" "''ping''" v ?s3] by (simp add: fetchTest_history)
  then show ?thesis by (simp add: pingPhase_def Let_def)
qed

lemma pingPhase_requests:
  "set (requests (pingPhase env s)) \<subseteq> set (requests s) \<union> {''ip'', ''ping'', ''download''}"
proof -
  let ?s1 = "s\<lparr>loading := True, results := placeholders\<rparr>"
  let ?s2 = "fetchTest env ''ip'' ''ip'' ?s1"
  let ?s3 = "fetchTest env ''ping'' ''ping'' ?s2"
  have "set (requests ?s2) \<subseteq> insert ''ip'' (set (requests s))"
    using fetchTest_requests [of env "''ip''" "''ip''" ?s1] by simp
  moreover have "set (requests ?s3) \<subseteq> insert ''ping'' (set (requests ?s2))"
    by (rule fetchTest_requests)
  ultimately have a: "set (requests ?s3) \<subseteq> set (requests s) \<union> {''ip'', ''ping'', ''download''}"
    by auto
  have "requests (setResult ''ping'' v ?s3) = requests ?s3" for v
    using setResult_frame [of "''ping''" "''ping''" v ?s3] by simp
  with a show ?thesis by (simp add: pingPhase_def Let_def)
qed


lemma placeholders_values:
  "placeholders ''ping'' = Some (JStr ''Testing...'')"
  "placeholders ''download'' = Some (JStr ''Testing...'')"
  "placeholders ''upload'' = Some (JStr ''Testing...'')"
  "placeholders ''nmap'' = Some (JStr ''Scanning...'')"
  "placeholders ''ports'' = Some (JStr ''Scanning...'')"
  "placeholders ''services'' = Some (JStr ''Detecting...'')"
  "placeholders ''vuln'' = Some (JStr ''Scanning...'')"
  "placeholders ''ssl'' = Some (JStr ''Checking...'')"
  "placeholders ''firewall'' = Some (JStr ''Checking...'')"
  by (simp_all add: placeholders_def)













section \<open>The probe cycle: the properties of the specification\<close>
















text \<open>
  C10. When the response of the download has no body to read, \<^verbatim>\<open>fetchData\<close> rejects with
  the error \<^verbatim>\<open>Failed to read download stream\<close>. In the state it leaves, the results of
  the download, of the upload and of the six scans are still their placeholders, the history
  is the one before the cycle, the loading flag is set, and no endpoint other than
  \<^verbatim>\<open>ip\<close>, \<^verbatim>\<open>ping\<close> and \<^verbatim>\<open>download\<close> was requested.
\<close>

theorem download_without_body_aborts:
  assumes "download env = DownloadResponse None h"
  shows "\<exists>s'. fetchData env captured s = Inl (''Failed to read download stream'', s')
     \<and> loading s' \<and> history s' = history s
     \<and> results s' ''download'' = Some (JStr ''Testing...'')
     \<and> results s' ''upload'' = Some (JStr ''Testing...'')
     \<and> results s' ''nmap'' = Some (JStr ''Scanning...'')
     \<and> results s' ''ports'' = Some (JStr ''Scanning...'')
     \<and> results s' ''services'' = Some (JStr ''Detecting...'')
     \<and> results s' ''vuln'' = Some (JStr ''Scanning...'')
     \<and> results s' ''ssl'' = Some (JStr ''Checking...'')
     \<and> results s' ''firewall'' = Some (JStr ''Checking...'')
     \<and> set (requests s') \<subseteq> set (requests s) \<union> {''ip'', ''ping'', ''download''}"
proof -
  have "fetchData env captured s = Inl (''Failed to read download stream'', pingPhase env s)"
    by (simp add: fetchData_def assms)
  then show ?thesis
    using pingPhase_requests [of env s]
    by (simp add: pingPhase_loading pingPhase_history pingPhase_placeholder placeholders_values)
qed

text \<open>The theorem at the cycle of the mount in the example environment, with a download
  response that has no body.\<close>

theorem download_without_body_aborts_witness:
  "\<exists>s'. mountCycle (exampleEnv\<lparr>download := DownloadResponse None None\<rparr>)
           = Inl (''Failed to read download stream'', s')
     \<and> loading s' \<and> history s' = []
     \<and> results s' ''download'' = Some (JStr ''Testing...'')
     \<and> results s' ''upload'' = Some (JStr ''Testing...'')
     \<and> results s' ''nmap'' = Some (JStr ''Scanning...'')
     \<and> results s' ''ports'' = Some (JStr ''Scanning...'')
     \<and> results s' ''services'' = Some (JStr ''Detecting...'')
     \<and> results s' ''vuln'' = Some (JStr ''Scanning...'')
     \<and> results s' ''ssl'' = Some (JStr ''Checking...'')
     \<and> results s' ''firewall'' = Some (JStr ''Checking...'')
     \<and> set (requests s') \<subseteq> {''ip'', ''ping'', ''download''}"
proof -
  have d: "download (exampleEnv\<lparr>download := DownloadResponse None None\<rparr>) = DownloadResponse None None"
    by simp
  show ?thesis
    using download_without_body_aborts [OF d, of Map.empty initialApp]
    by (simp add: mountCycle_def initialApp_def)
qed

end
